theory Spec2Isabelle
  imports Complex_Main "HOL-Library.Multiset" "HOL-Library.Word" "HOL-Library.Product_Lexorder"
begin

section \<open>Values of the JavaScript runtime\<close>

text \<open>
  The monitor (\<^verbatim>\<open>src/index.ts\<close>) reads JSON files and never checks their shape, so the
  values it handles are arbitrary parsed JSON documents. An object is the association list
  of its own properties, in which the first binding of a key is the property's value (a
  parsed object holds every key once).

  A string is the list of its UTF-16 code units. \<open>str\<close> gives the string of an ASCII
  literal of the source.

  A number of a parsed document is modelled by its value, a rational. The result of a
  numeric conversion or of an arithmetic operation is a \<open>jsnum\<close>: a finite number, NaN,
  or one of the two infinities. The two zeros are not told apart: no operation of the
  monitor distinguishes them.
\<close>

type_synonym ustring = "16 word list"

abbreviation cu :: "char \<Rightarrow> 16 word" where
  "cu c \<equiv> of_char c"

definition str :: "string \<Rightarrow> ustring" where
  "str s = map cu s"

datatype json =
    JNull
  | JBool bool
  | JNum rat
  | JStr ustring
  | JArr "json list"
  | JObj "(ustring \<times> json) list"

datatype jsnum = Num rat | NaN | PInf | NInf

text \<open>Three functions of the runtime are parameters of the model. Each is total in
  ECMAScript: \<^verbatim>\<open>Number::toString\<close> (the decimal text of a number),
  \<^verbatim>\<open>StringToNumber\<close> (the number that a string denotes, NaN when it denotes none) and
  \<^verbatim>\<open>Date.prototype.toISOString\<close> on a reading of the clock, in milliseconds since the
  epoch.\<close>

record engine =
  numberToString :: "rat \<Rightarrow> ustring"
  stringToNumber :: "ustring \<Rightarrow> jsnum"
  toISOString :: "int \<Rightarrow> ustring"

text \<open>Property access \<^verbatim>\<open>v.k\<close> on a value that is neither null nor undefined:
  \<open>None\<close> is \<^verbatim>\<open>undefined\<close>. None of the keys the monitor reads (\<^verbatim>\<open>id\<close>,
  \<^verbatim>\<open>status\<close>, the three configuration fields) is a property of a primitive's or an
  array's prototype.\<close>

fun get_prop :: "json \<Rightarrow> ustring \<Rightarrow> json option" where
  "get_prop (JObj kvs) k = map_of kvs k"
| "get_prop _ k = None"

text \<open>ToBoolean, as used by \<^verbatim>\<open>if (task)\<close>.\<close>

fun truthy :: "json \<Rightarrow> bool" where
  "truthy JNull = False"
| "truthy (JBool b) = b"
| "truthy (JNum r) = (r \<noteq> 0)"
| "truthy (JStr s) = (s \<noteq> [])"
| "truthy (JArr xs) = True"
| "truthy (JObj kvs) = True"

subsection \<open>Strings\<close>

text \<open>The code units that \<^verbatim>\<open>trim\<close> and \<^verbatim>\<open>parseInt\<close> strip: ECMAScript's WhiteSpace
  (TAB, VT, FF, the zero-width no-break space U+FEFF and the space separators of Unicode:
  U+0020, U+00A0, U+1680, U+2000 to U+200A, U+202F, U+205F, U+3000) and LineTerminator
  (LF, CR, U+2028, U+2029).\<close>

definition is_ws :: "16 word \<Rightarrow> bool" where
  "is_ws c = (c = 0x09 \<or> c = 0x0A \<or> c = 0x0B \<or> c = 0x0C \<or> c = 0x0D \<or> c = 0x20
              \<or> c = 0xA0 \<or> c = 0x1680 \<or> (0x2000 \<le> c \<and> c \<le> 0x200A)
              \<or> c = 0x2028 \<or> c = 0x2029 \<or> c = 0x202F \<or> c = 0x205F \<or> c = 0x3000
              \<or> c = 0xFEFF)"

definition trim :: "ustring \<Rightarrow> ustring" where
  "trim s = rev (dropWhile is_ws (rev (dropWhile is_ws s)))"

definition endsWith :: "ustring \<Rightarrow> ustring \<Rightarrow> bool" where
  "endsWith s suf = (length suf \<le> length s \<and> drop (length s - length suf) s = suf)"

definition startsWith :: "ustring \<Rightarrow> ustring \<Rightarrow> bool" where
  "startsWith s pre = (take (length pre) s = pre)"

fun str_includes :: "ustring \<Rightarrow> ustring \<Rightarrow> bool" where
  "str_includes [] sub = (sub = [])"
| "str_includes (c # cs) sub = (startsWith (c # cs) sub \<or> str_includes cs sub)"

subsection \<open>ToString\<close>

text \<open>
  ECMAScript's ToString on a parsed JSON value; \<open>None\<close> when it throws a TypeError.
  An array is converted by \<^verbatim>\<open>Array.prototype.join\<close>: its elements are converted in turn
  and separated by commas, \<^verbatim>\<open>null\<close> giving the empty string. An object is converted by
  the method \<^verbatim>\<open>toString\<close>, then \<^verbatim>\<open>valueOf\<close>. An object without a property of its own
  named \<^verbatim>\<open>toString\<close> inherits the method that answers \<^verbatim>\<open>[object Object]\<close>. With such
  a property, which in a parsed document is never a function, the method is skipped,
  \<^verbatim>\<open>valueOf\<close> (inherited: it returns the object; or a property of the document: not a
  function) yields no primitive either, and the conversion throws.
\<close>

fun ToString :: "engine \<Rightarrow> json \<Rightarrow> ustring option"
  and join :: "engine \<Rightarrow> json list \<Rightarrow> ustring option" where
  "ToString js JNull = Some (str ''null'')"
| "ToString js (JBool b) = Some (str (if b then ''true'' else ''false''))"
| "ToString js (JNum r) = Some (numberToString js r)"
| "ToString js (JStr s) = Some s"
| "ToString js (JArr xs) = join js xs"
| "ToString js (JObj kvs) =
     (if map_of kvs (str ''toString'') = None then Some (str ''[object Object]'') else None)"
| "join js [] = Some []"
| "join js (x # xs) =
     (case (if x = JNull then Some [] else ToString js x) of
        None \<Rightarrow> None
      | Some s \<Rightarrow>
          (case join js xs of
             None \<Rightarrow> None
           | Some r \<Rightarrow> Some (if xs = [] then s else s @ str '','' @ r)))"

subsection \<open>parseInt\<close>

text \<open>The value of a code unit as a digit (letters count from ten, in either case);
  36 for a code unit that is no digit in any radix.\<close>

definition digit_val :: "16 word \<Rightarrow> int" where
  "digit_val c =
     (let n = uint c in
      if 48 \<le> n \<and> n \<le> 57 then n - 48
      else if 97 \<le> n \<and> n \<le> 122 then n - 87
      else if 65 \<le> n \<and> n \<le> 90 then n - 55
      else 36)"

text \<open>The double nearest to a natural number, ties going to the even significand of 53
  bits; \<open>None\<close> when the number is beyond the range of the doubles and rounds to
  Infinity.\<close>

function bit_length :: "int \<Rightarrow> nat" where
  "bit_length n = (if n \<le> 0 then 0 else Suc (bit_length (n div 2)))"
  by pat_completeness auto
termination by (relation "measure nat") auto

declare bit_length.simps [simp del]

definition toDouble :: "int \<Rightarrow> int option" where
  "toDouble n =
     (if n < 2 ^ 53 then Some n
      else let e = bit_length n - 53;
               q = n div 2 ^ e;
               r = n mod 2 ^ e;
               h = 2 ^ (e - 1);
               q' = (if r > h \<or> (r = h \<and> odd q) then q + 1 else q);
               v = q' * 2 ^ e
           in if v \<ge> 2 ^ 1024 then None else Some v)"

text \<open>\<^verbatim>\<open>parseInt(s)\<close> with no radix argument, on a string: leading white space is skipped,
  then a sign, then the prefix \<^verbatim>\<open>0x\<close> or \<^verbatim>\<open>0X\<close> selects radix 16; the longest run of
  digits is read, NaN is the answer when there is none, and otherwise the double nearest
  to the integer that the digits denote. (ECMAScript lets an engine drop the decimal
  digits after the twentieth; V8, the engine of Node.js, rounds the exact integer.)\<close>

definition parseInt_str :: "ustring \<Rightarrow> jsnum" where
  "parseInt_str s =
     (let s1 = dropWhile is_ws s;
          neg = (s1 \<noteq> [] \<and> hd s1 = cu CHR ''-'');
          s2 = (if s1 \<noteq> [] \<and> (hd s1 = cu CHR ''+'' \<or> hd s1 = cu CHR ''-'') then tl s1 else s1);
          hex = (take 2 s2 = str ''0x'' \<or> take 2 s2 = str ''0X'');
          radix = (if hex then 16 else 10 :: int);
          s3 = (if hex then drop 2 s2 else s2);
          z = takeWhile (\<lambda>c. digit_val c < radix) s3;
          m = foldl (\<lambda>a c. a * radix + digit_val c) 0 z
      in if z = [] then NaN
         else case toDouble m of
                None \<Rightarrow> if neg then NInf else PInf
              | Some v \<Rightarrow> Num (if neg then - of_int v else of_int v))"

text \<open>\<^verbatim>\<open>parseInt(x)\<close> first converts \<open>x\<close> to a string (\<^verbatim>\<open>undefined\<close> when \<open>x\<close> is a
  missing property). \<open>None\<close>: the conversion throws.\<close>

definition parseInt :: "engine \<Rightarrow> json option \<Rightarrow> jsnum option" where
  "parseInt js x =
     map_option parseInt_str
       (case x of None \<Rightarrow> Some (str ''undefined'') | Some v \<Rightarrow> ToString js v)"

subsection \<open>Array.prototype.sort\<close>

text \<open>
  \<^verbatim>\<open>xs.sort(cmp)\<close> is a stable sort, and a comparator result of NaN counts as 0.
  ECMAScript fixes the result only when the comparator is consistent; then every stable
  sort returns the same list, and the model is the stable insertion sort. With an
  inconsistent comparator the order is left to the engine, and the model is one such
  engine. An exception thrown by the comparator leaves the sort (\<open>None\<close>). An array of
  fewer than two elements is returned without a call of the comparator; in a longer one
  every element is passed to the comparator at least once, by the model as by any
  sorting algorithm.
\<close>

definition cmp_le0 :: "jsnum \<Rightarrow> bool" where
  "cmp_le0 v = (case v of NaN \<Rightarrow> True | Num r \<Rightarrow> r \<le> 0 | PInf \<Rightarrow> False | NInf \<Rightarrow> True)"

fun js_insert :: "('a \<Rightarrow> 'a \<Rightarrow> jsnum option) \<Rightarrow> 'a \<Rightarrow> 'a list \<Rightarrow> 'a list option" where
  "js_insert cmp x [] = Some [x]"
| "js_insert cmp x (y # ys) =
     (case cmp x y of
        None \<Rightarrow> None
      | Some v \<Rightarrow>
          if cmp_le0 v then Some (x # y # ys)
          else map_option (\<lambda>zs. y # zs) (js_insert cmp x ys))"

fun js_sort :: "('a \<Rightarrow> 'a \<Rightarrow> jsnum option) \<Rightarrow> 'a list \<Rightarrow> 'a list option" where
  "js_sort cmp [] = Some []"
| "js_sort cmp (x # xs) =
     (case js_sort cmp xs of None \<Rightarrow> None | Some ys \<Rightarrow> js_insert cmp x ys)"

text \<open>Subtraction of two numbers. The difference of two finite numbers is exact here,
  where JavaScript rounds it to a double; rounding keeps the sign, and the sort reads
  nothing else of a comparator's result.\<close>

fun js_minus :: "jsnum \<Rightarrow> jsnum \<Rightarrow> jsnum" where
  "js_minus (Num a) (Num b) = Num (a - b)"
| "js_minus (Num a) PInf = NInf"
| "js_minus (Num a) NInf = PInf"
| "js_minus PInf (Num b) = PInf"
| "js_minus PInf NInf = PInf"
| "js_minus NInf (Num b) = NInf"
| "js_minus NInf PInf = NInf"
| "js_minus PInf PInf = NaN"
| "js_minus NInf NInf = NaN"
| "js_minus NaN b = NaN"
| "js_minus a NaN = NaN"

section \<open>The watched directory tree\<close>

text \<open>
  What one aggregation pass sees of \<^verbatim>\<open>~/.claude/tasks\<close>. A file of a list directory is
  described by what the three calls made on it return: \<^verbatim>\<open>readFileSync\<close> followed by
  \<^verbatim>\<open>JSON.parse\<close> (the read throws, the parse throws, or a value is parsed) and
  \<^verbatim>\<open>statSync\<close> (\<open>None\<close> when it throws, else the mtime in milliseconds since the
  epoch). An entry of the root is a directory, with the result of listing it (\<open>None\<close> when
  \<^verbatim>\<open>readdirSync\<close> throws), or something that is not a directory. Lists are in
  \<^verbatim>\<open>readdirSync\<close> order.
\<close>

datatype read_result = ReadFails | NotJSON | Parsed json

record task_file =
  f_name :: ustring
  f_content :: read_result
  f_mtime :: "int option"

datatype dirent = Other ustring | Dir ustring "task_file list option"

datatype tasks_dir = NoTasksDir | Unreadable | Listing "dirent list"

record ClaudeTaskList =
  tl_id :: ustring
  tl_tasks :: "json list"
  tl_lastModified :: int

record TaskListSummary =
  s_id :: ustring
  s_path :: ustring
  s_taskCount :: nat
  s_pendingCount :: nat
  s_inProgressCount :: nat
  s_completedCount :: nat
  s_lastModified :: int
  s_hasPrompt :: bool

record TaskMonitorData =
  md_taskLists :: "ClaudeTaskList list"
  md_availableLists :: "TaskListSummary list"
  md_selectedListId :: ustring
  md_templates :: "ustring list"
  md_projectDir :: ustring

type_synonym task_cache = "ustring \<rightharpoonup> (json list \<times> int)"

section \<open>Task Reader and Aggregator\<close>

text \<open>\<^verbatim>\<open>readTaskFile\<close>: the parsed value, or \<^verbatim>\<open>null\<close> when reading or parsing throws.\<close>

fun readTaskFile :: "read_result \<Rightarrow> json" where
  "readTaskFile ReadFails = JNull"
| "readTaskFile NotJSON = JNull"
| "readTaskFile (Parsed v) = v"

text \<open>The loop over the files of one list directory, the same text in \<^verbatim>\<open>getTaskLists\<close>
  and in \<^verbatim>\<open>getAllTaskListSummaries\<close>. \<open>None\<close>: \<^verbatim>\<open>statSync\<close> threw, and the
  enclosing \<^verbatim>\<open>catch\<close> skips the directory.\<close>

fun scan_task_files :: "task_file list \<Rightarrow> json list \<Rightarrow> int \<Rightarrow> (json list \<times> int) option" where
  "scan_task_files [] tasks lastModified = Some (tasks, lastModified)"
| "scan_task_files (f # fs) tasks lastModified =
     (if \<not> endsWith (f_name f) (str ''.json'') then scan_task_files fs tasks lastModified
      else if truthy (readTaskFile (f_content f)) then
        (case f_mtime f of
           None \<Rightarrow> None
         | Some mtime \<Rightarrow>
             scan_task_files fs (tasks @ [readTaskFile (f_content f)])
               (if mtime > lastModified then mtime else lastModified))
      else scan_task_files fs tasks lastModified)"

text \<open>\<^verbatim>\<open>parseInt(a.id)\<close> and the comparator \<^verbatim>\<open>(a, b) => parseInt(a.id) - parseInt(b.id)\<close>:
  both conversions are made, the left one first, and either may throw.\<close>

definition task_num :: "engine \<Rightarrow> json \<Rightarrow> jsnum option" where
  "task_num js t = parseInt js (get_prop t (str ''id''))"

definition task_cmp :: "engine \<Rightarrow> json \<Rightarrow> json \<Rightarrow> jsnum option" where
  "task_cmp js a b =
     (case task_num js a of
        None \<Rightarrow> None
      | Some x \<Rightarrow> (case task_num js b of None \<Rightarrow> None | Some y \<Rightarrow> Some (js_minus x y)))"

text \<open>\<^verbatim>\<open>(a, b) => b.lastModified.getTime() - a.lastModified.getTime()\<close>, which does not
  throw.\<close>

definition list_cmp :: "ClaudeTaskList \<Rightarrow> ClaudeTaskList \<Rightarrow> jsnum option" where
  "list_cmp a b = Some (Num (of_int (tl_lastModified b - tl_lastModified a)))"

definition summary_cmp :: "TaskListSummary \<Rightarrow> TaskListSummary \<Rightarrow> jsnum option" where
  "summary_cmp a b = Some (Num (of_int (s_lastModified b - s_lastModified a)))"

text \<open>The loop of \<^verbatim>\<open>getTaskLists\<close> over the entries of the root. It appends to
  \<open>taskLists\<close> and writes the cache of last-known lists. The sort of the tasks is outside
  the \<^verbatim>\<open>try\<close> block of the loop body: when its comparator throws, the exception leaves
  the loop (first component \<open>None\<close>) and the cache keeps what the earlier iterations
  wrote.\<close>

fun getTaskLists_loop ::
  "engine \<Rightarrow> dirent list \<Rightarrow> ClaudeTaskList list \<Rightarrow> task_cache
     \<Rightarrow> ClaudeTaskList list option \<times> task_cache" where
  "getTaskLists_loop js [] taskLists cache = (Some taskLists, cache)"
| "getTaskLists_loop js (Other name # ds) taskLists cache =
     getTaskLists_loop js ds taskLists cache"
| "getTaskLists_loop js (Dir name listing # ds) taskLists cache =
     (if name = str ''.archive'' then getTaskLists_loop js ds taskLists cache
      else case listing of
        None \<Rightarrow> getTaskLists_loop js ds taskLists cache
      | Some taskFiles \<Rightarrow>
          (case scan_task_files taskFiles [] 0 of
             None \<Rightarrow> getTaskLists_loop js ds taskLists cache
           | Some (tasks, lastModified) \<Rightarrow>
               if length tasks > 0 then
                 (case js_sort (task_cmp js) tasks of
                    None \<Rightarrow> (None, cache)
                  | Some sortedTasks \<Rightarrow>
                      getTaskLists_loop js ds
                        (taskLists @ [\<lparr>tl_id = name, tl_tasks = sortedTasks,
                                       tl_lastModified = lastModified\<rparr>])
                        (cache(name \<mapsto> (sortedTasks, lastModified))))
               else getTaskLists_loop js ds taskLists cache))"

text \<open>\<^verbatim>\<open>getTaskLists\<close>. The first component is the returned array, \<open>None\<close> when an
  exception leaves the function: listing the root throws, or a comparator does. The
  second component is the cache after the call.\<close>

definition getTaskLists ::
  "engine \<Rightarrow> tasks_dir \<Rightarrow> task_cache \<Rightarrow> ClaudeTaskList list option \<times> task_cache" where
  "getTaskLists js tdir cache =
     (case tdir of
        NoTasksDir \<Rightarrow> (Some [], cache)
      | Unreadable \<Rightarrow> (None, cache)
      | Listing listDirs \<Rightarrow>
          (case getTaskLists_loop js listDirs [] cache of
             (None, cache') \<Rightarrow> (None, cache')
           | (Some taskLists, cache') \<Rightarrow> (js_sort list_cmp taskLists, cache')))"

text \<open>\<^verbatim>\<open>getAllTaskListSummaries\<close> scans the same tree again. \<^verbatim>\<open>listPath\<close> is
  \<^verbatim>\<open>path.join(TASKS_DIR, dir.name)\<close>; \<^verbatim>\<open>hasPrompt\<close> is read off the listing of the
  directory (an unlisted directory is skipped before \<^verbatim>\<open>hasPrompt\<close> is used).\<close>

definition has_status :: "ustring \<Rightarrow> json \<Rightarrow> bool" where
  "has_status st t = (get_prop t (str ''status'') = Some (JStr st))"

fun getAllTaskListSummaries_loop ::
  "ustring \<Rightarrow> dirent list \<Rightarrow> TaskListSummary list \<Rightarrow> TaskListSummary list" where
  "getAllTaskListSummaries_loop TASKS_DIR [] summaries = summaries"
| "getAllTaskListSummaries_loop TASKS_DIR (Other name # ds) summaries =
     getAllTaskListSummaries_loop TASKS_DIR ds summaries"
| "getAllTaskListSummaries_loop TASKS_DIR (Dir name listing # ds) summaries =
     (if name = str ''.archive'' then getAllTaskListSummaries_loop TASKS_DIR ds summaries
      else case listing of
        None \<Rightarrow> getAllTaskListSummaries_loop TASKS_DIR ds summaries
      | Some taskFiles \<Rightarrow>
          (case scan_task_files taskFiles [] 0 of
             None \<Rightarrow> getAllTaskListSummaries_loop TASKS_DIR ds summaries
           | Some (tasks, lastModified) \<Rightarrow>
               if length tasks > 0 then
                 getAllTaskListSummaries_loop TASKS_DIR ds
                   (summaries @
                     [\<lparr>s_id = name,
                       s_path = TASKS_DIR @ str ''/'' @ name,
                       s_taskCount = length tasks,
                       s_pendingCount = length (filter (has_status (str ''pending'')) tasks),
                       s_inProgressCount =
                         length (filter (has_status (str ''in_progress'')) tasks),
                       s_completedCount = length (filter (has_status (str ''completed'')) tasks),
                       s_lastModified = lastModified,
                       s_hasPrompt = (str ''prompt.md'' \<in> set (map f_name taskFiles))\<rparr>])
               else getAllTaskListSummaries_loop TASKS_DIR ds summaries))"

definition getAllTaskListSummaries :: "ustring \<Rightarrow> tasks_dir \<Rightarrow> TaskListSummary list option" where
  "getAllTaskListSummaries TASKS_DIR tdir =
     (case tdir of
        NoTasksDir \<Rightarrow> Some []
      | Unreadable \<Rightarrow> None
      | Listing listDirs \<Rightarrow>
          js_sort summary_cmp (getAllTaskListSummaries_loop TASKS_DIR listDirs []))"

section \<open>Config Store\<close>

record MonitorConfig =
  projectDir :: ustring
  pollInterval :: rat
  agentNames :: "ustring list"

text \<open>\<^verbatim>\<open>DEFAULT_CONFIG\<close>; its \<^verbatim>\<open>projectDir\<close> is \<^verbatim>\<open>process.cwd()\<close>.\<close>

definition DEFAULT_CONFIG :: "ustring \<Rightarrow> MonitorConfig" where
  "DEFAULT_CONFIG cwd =
     \<lparr>projectDir = cwd, pollInterval = 2000,
      agentNames = map str [''alpha'', ''beta'', ''gamma'', ''delta'', ''epsilon'', ''zeta'',
        ''eta'', ''theta'', ''iota'', ''kappa'', ''lambda'', ''mu'', ''nu'', ''xi'', ''omicron'',
        ''pi'', ''rho'', ''sigma'', ''tau'', ''upsilon'', ''phi'', ''chi'', ''psi'', ''omega'']\<rparr>"

text \<open>The persisted file \<^verbatim>\<open>monitor-config.json\<close>: absent, or present with what reading
  and parsing it gives.\<close>

datatype config_file_state = NoConfigFile | ConfigFile read_result

text \<open>The document that \<^verbatim>\<open>JSON.parse\<close> reads back from
  \<^verbatim>\<open>JSON.stringify(config, null, 2)\<close>.\<close>

definition config_json :: "MonitorConfig \<Rightarrow> json" where
  "config_json c =
     JObj [(str ''projectDir'', JStr (projectDir c)),
           (str ''pollInterval'', JNum (pollInterval c)),
           (str ''agentNames'', JArr (map JStr (agentNames c)))]"

fun the_str :: "json \<Rightarrow> ustring" where
  "the_str (JStr s) = s"
| "the_str _ = []"

text \<open>\<^verbatim>\<open>typeof n === 'string' && n.length > 0\<close>\<close>

fun nonempty_string :: "json \<Rightarrow> bool" where
  "nonempty_string (JStr s) = (length s > 0)"
| "nonempty_string _ = False"

text \<open>\<^verbatim>\<open>loadConfig\<close>. Reading a property of \<^verbatim>\<open>null\<close> throws, which the
  \<^verbatim>\<open>catch\<close> turns into the defaults; every other parsed value has its three fields
  looked up one by one.\<close>

definition loadConfig :: "ustring \<Rightarrow> config_file_state \<Rightarrow> MonitorConfig" where
  "loadConfig cwd cf =
     (case cf of
        NoConfigFile \<Rightarrow> DEFAULT_CONFIG cwd
      | ConfigFile ReadFails \<Rightarrow> DEFAULT_CONFIG cwd
      | ConfigFile NotJSON \<Rightarrow> DEFAULT_CONFIG cwd
      | ConfigFile (Parsed JNull) \<Rightarrow> DEFAULT_CONFIG cwd
      | ConfigFile (Parsed parsed) \<Rightarrow>
          \<lparr>projectDir =
             (case get_prop parsed (str ''projectDir'') of
                Some (JStr s) \<Rightarrow> if length s > 0 then s else projectDir (DEFAULT_CONFIG cwd)
              | _ \<Rightarrow> projectDir (DEFAULT_CONFIG cwd)),
           pollInterval =
             (case get_prop parsed (str ''pollInterval'') of
                Some (JNum n) \<Rightarrow>
                  if n \<ge> 500 \<and> n \<le> 60000 then n else pollInterval (DEFAULT_CONFIG cwd)
              | _ \<Rightarrow> pollInterval (DEFAULT_CONFIG cwd)),
           agentNames =
             (case get_prop parsed (str ''agentNames'') of
                Some (JArr ns) \<Rightarrow>
                  if length ns > 0 \<and> list_all nonempty_string ns then map the_str ns
                  else agentNames (DEFAULT_CONFIG cwd)
              | _ \<Rightarrow> agentNames (DEFAULT_CONFIG cwd))\<rparr>)"

text \<open>The \<^verbatim>\<open>in\<close> operator with one of the three field names on the left: it throws a
  TypeError on a primitive (\<open>None\<close>), and an array has none of the three.\<close>

fun js_in :: "ustring \<Rightarrow> json \<Rightarrow> bool option" where
  "js_in k (JObj kvs) = Some (map_of kvs k \<noteq> None)"
| "js_in k (JArr xs) = Some False"
| "js_in k _ = None"

text \<open>\<^verbatim>\<open>Number(x)\<close>, ECMAScript's ToNumber; \<open>None\<close> when it throws a TypeError. An array
  or an object is first converted to a primitive: \<^verbatim>\<open>valueOf\<close> yields none (inherited, it
  returns the value itself; as a property of the document it is not a function), so the
  primitive is the string that \<open>ToString\<close> gives, or the conversion throws as it does
  there.\<close>

fun Number :: "engine \<Rightarrow> json option \<Rightarrow> jsnum option" where
  "Number js None = Some NaN"
| "Number js (Some JNull) = Some (Num 0)"
| "Number js (Some (JBool b)) = Some (Num (if b then 1 else 0))"
| "Number js (Some (JNum r)) = Some (Num r)"
| "Number js (Some (JStr s)) = Some (stringToNumber js s)"
| "Number js (Some v) = map_option (stringToNumber js) (ToString js v)"

datatype validation = Invalid ustring | Valid MonitorConfig

text \<open>The three \<^verbatim>\<open>if ('field' in input)\<close> blocks of \<^verbatim>\<open>validateConfig\<close>, each run
  when the field is present: the error message, or the working copy with the field set.
  The second block throws (\<open>None\<close>) when \<^verbatim>\<open>Number\<close> does.\<close>

definition check_projectDir :: "json \<Rightarrow> MonitorConfig \<Rightarrow> ustring + MonitorConfig" where
  "check_projectDir input config =
     (case get_prop input (str ''projectDir'') of
        Some (JStr s) \<Rightarrow>
          if length (trim s) = 0 then Inl (str ''projectDir must be a non-empty string'')
          else Inr (config\<lparr>projectDir := trim s\<rparr>)
      | _ \<Rightarrow> Inl (str ''projectDir must be a non-empty string''))"

definition check_pollInterval ::
  "engine \<Rightarrow> json \<Rightarrow> MonitorConfig \<Rightarrow> (ustring + MonitorConfig) option" where
  "check_pollInterval js input config =
     (case Number js (get_prop input (str ''pollInterval'')) of
        None \<Rightarrow> None
      | Some (Num val) \<Rightarrow>
          if val < 500 \<or> val > 60000
          then Some (Inl (str ''pollInterval must be a number between 500 and 60000''))
          else Some (Inr (config\<lparr>pollInterval := val\<rparr>))
      | Some _ \<Rightarrow> Some (Inl (str ''pollInterval must be a number between 500 and 60000'')))"

fun nonblank_string :: "json \<Rightarrow> bool" where
  "nonblank_string (JStr s) = (length (trim s) \<noteq> 0)"
| "nonblank_string _ = False"

definition check_agentNames :: "json \<Rightarrow> MonitorConfig \<Rightarrow> ustring + MonitorConfig" where
  "check_agentNames input config =
     (case get_prop input (str ''agentNames'') of
        Some (JArr ns) \<Rightarrow>
          if length ns = 0 then Inl (str ''agentNames must be a non-empty array of strings'')
          else if \<not> list_all nonblank_string ns
          then Inl (str ''Each agent name must be a non-empty string'')
          else Inr (config\<lparr>agentNames := map (\<lambda>n. trim (the_str n)) ns\<rparr>)
      | _ \<Rightarrow> Inl (str ''agentNames must be a non-empty array of strings''))"

text \<open>\<^verbatim>\<open>validateConfig\<close>, on the parsed request body and the live configuration.
  \<open>None\<close>: a TypeError is thrown (the body is a primitive, or \<^verbatim>\<open>Number\<close> throws on the
  value of \<^verbatim>\<open>pollInterval\<close>).\<close>

definition validateConfig ::
  "engine \<Rightarrow> MonitorConfig \<Rightarrow> json \<Rightarrow> validation option" where
  "validateConfig js currentConfig input =
     (case js_in (str ''projectDir'') input of
        None \<Rightarrow> None
      | Some b1 \<Rightarrow>
         (case (if b1 then check_projectDir input currentConfig else Inr currentConfig) of
            Inl e \<Rightarrow> Some (Invalid e)
          | Inr c1 \<Rightarrow>
             (case js_in (str ''pollInterval'') input of
                None \<Rightarrow> None
              | Some b2 \<Rightarrow>
                 (case (if b2 then check_pollInterval js input c1 else Some (Inr c1)) of
                    None \<Rightarrow> None
                  | Some (Inl e) \<Rightarrow> Some (Invalid e)
                  | Some (Inr c2) \<Rightarrow>
                     (case js_in (str ''agentNames'') input of
                        None \<Rightarrow> None
                      | Some b3 \<Rightarrow>
                         (case (if b3 then check_agentNames input c2 else Inr c2) of
                            Inl e \<Rightarrow> Some (Invalid e)
                          | Inr c3 \<Rightarrow> Some (Valid c3)))))))"

section \<open>The running process\<close>

text \<open>
  The module-level variables (\<^verbatim>\<open>currentConfig\<close>, \<^verbatim>\<open>taskDataCache\<close>,
  \<^verbatim>\<open>writeDebounceTimer\<close>) and the files the process writes: the persisted
  configuration, the archive directory (file name to record) and the published snapshot
  \<^verbatim>\<open>task-monitor-data.json\<close>. A pending timer is the time at which it is due.
  \<open>passes\<close> counts the calls of \<^verbatim>\<open>writeFiles\<close>. The HTML document is rendered from
  the same snapshot and is not part of the model.
\<close>

record archive_record =
  a_id :: ustring
  a_archivedAt :: ustring
  a_tasks :: "json list"

record monitor =
  currentConfig :: MonitorConfig
  config_file :: config_file_state
  taskDataCache :: task_cache
  writeDebounceTimer :: "int option"
  archive_dir :: "ustring \<rightharpoonup> archive_record"
  data_file :: "TaskMonitorData option"
  passes :: nat

text \<open>\<^verbatim>\<open>saveConfig\<close>, when the write succeeds.\<close>

definition saveConfig :: "MonitorConfig \<Rightarrow> monitor \<Rightarrow> monitor" where
  "saveConfig config st = st\<lparr>config_file := ConfigFile (Parsed (config_json config))\<rparr>"

subsection \<open>Debounced regeneration\<close>

text \<open>\<^verbatim>\<open>scheduleWriteFiles\<close> at time \<open>now\<close>: a pending timer is cleared and a new one is
  set, due 300 ms later.\<close>

definition scheduleWriteFiles :: "int \<Rightarrow> monitor \<Rightarrow> monitor" where
  "scheduleWriteFiles now st = st\<lparr>writeDebounceTimer := Some (now + 300)\<rparr>"

text \<open>\<^verbatim>\<open>writeFiles\<close> on the tree \<open>tdir\<close>. An exception of either scan, or of the write
  of the data file (\<open>write_ok\<close> false), is caught and logged: the published snapshot
  stays as it was. The cache keeps what \<^verbatim>\<open>getTaskLists\<close> wrote to it before the
  exception.\<close>

definition writeFiles ::
  "engine \<Rightarrow> ustring \<Rightarrow> tasks_dir \<Rightarrow> bool \<Rightarrow> monitor \<Rightarrow> monitor" where
  "writeFiles js TASKS_DIR tdir write_ok st =
     (let st0 = st\<lparr>passes := passes st + 1\<rparr> in
      case getTaskLists js tdir (taskDataCache st0) of
        (None, cache') \<Rightarrow> st0\<lparr>taskDataCache := cache'\<rparr>
      | (Some taskLists, cache') \<Rightarrow>
          let st1 = st0\<lparr>taskDataCache := cache'\<rparr> in
          (case getAllTaskListSummaries TASKS_DIR tdir of
             None \<Rightarrow> st1
           | Some availableLists \<Rightarrow>
               let monitorData =
                 \<lparr>md_taskLists = taskLists,
                  md_availableLists = availableLists,
                  md_selectedListId =
                    (if length taskLists > 0 then tl_id (hd taskLists) else []),
                  md_templates = [],
                  md_projectDir = projectDir (currentConfig st1)\<rparr>
               in if write_ok then st1\<lparr>data_file := Some monitorData\<rparr> else st1))"

text \<open>The timer's callback, and the event loop reaching time \<open>now\<close>: a timer that is due
  fires.\<close>

definition timer_callback ::
  "engine \<Rightarrow> ustring \<Rightarrow> tasks_dir \<Rightarrow> bool \<Rightarrow> monitor \<Rightarrow> monitor" where
  "timer_callback js TASKS_DIR tdir write_ok st =
     writeFiles js TASKS_DIR tdir write_ok (st\<lparr>writeDebounceTimer := None\<rparr>)"

definition run_timers ::
  "engine \<Rightarrow> ustring \<Rightarrow> tasks_dir \<Rightarrow> bool \<Rightarrow> int \<Rightarrow> monitor \<Rightarrow> monitor" where
  "run_timers js TASKS_DIR tdir write_ok now st =
     (case writeDebounceTimer st of
        None \<Rightarrow> st
      | Some due \<Rightarrow>
          if due \<le> now then timer_callback js TASKS_DIR tdir write_ok st else st)"

subsection \<open>Archiver and the watcher's handlers\<close>

text \<open>\<^verbatim>\<open>path.dirname\<close> and \<^verbatim>\<open>path.basename\<close> (POSIX).\<close>

definition dirname :: "ustring \<Rightarrow> ustring" where
  "dirname p =
     (if p = [] then str ''.''
      else let hasRoot = (hd p = cu CHR ''/'');
               r = dropWhile (\<lambda>c. c = cu CHR ''/'') (rev (tl p));
               r2 = dropWhile (\<lambda>c. c \<noteq> cu CHR ''/'') r
           in if r2 = [] then (if hasRoot then str ''/'' else str ''.'')
              else if hasRoot \<and> length r2 = 1 then str ''//''
              else take (length r2) p)"

definition basename :: "ustring \<Rightarrow> ustring" where
  "basename p =
     rev (takeWhile (\<lambda>c. c \<noteq> cu CHR ''/'') (dropWhile (\<lambda>c. c = cu CHR ''/'') (rev p)))"

text \<open>\<^verbatim>\<open>archiveTaskList\<close>. \<open>t1\<close> and \<open>t2\<close> are the two readings of the clock. When
  \<^verbatim>\<open>mkdir\<close> or \<^verbatim>\<open>writeFile\<close> fails (\<open>archive_ok\<close> false) the error is logged and
  nothing is written.\<close>

definition archive_name :: "engine \<Rightarrow> int \<Rightarrow> ustring \<Rightarrow> ustring" where
  "archive_name js t1 taskListId =
     taskListId @ str ''_''
       @ map (\<lambda>c. if c = cu CHR '':'' \<or> c = cu CHR ''.'' then cu CHR ''-'' else c)
           (toISOString js t1)
       @ str ''.json''"

definition archiveTaskList ::
  "engine \<Rightarrow> bool \<Rightarrow> int \<Rightarrow> int \<Rightarrow> ustring \<Rightarrow> json list \<Rightarrow> monitor \<Rightarrow> monitor" where
  "archiveTaskList js archive_ok t1 t2 taskListId tasks st =
     (if archive_ok then
        st\<lparr>archive_dir := (archive_dir st)
             (archive_name js t1 taskListId \<mapsto>
                \<lparr>a_id = taskListId, a_archivedAt = toISOString js t2, a_tasks = tasks\<rparr>)\<rparr>
      else st)"

text \<open>The guard shared by the three file handlers.\<close>

definition ignored_path :: "ustring \<Rightarrow> bool" where
  "ignored_path filePath =
     (\<not> endsWith filePath (str ''.json'') \<or> str_includes filePath (str ''.archive''))"

definition on_add :: "int \<Rightarrow> ustring \<Rightarrow> monitor \<Rightarrow> monitor" where
  "on_add now filePath st = (if ignored_path filePath then st else scheduleWriteFiles now st)"

definition on_change :: "int \<Rightarrow> ustring \<Rightarrow> monitor \<Rightarrow> monitor" where
  "on_change now filePath st = (if ignored_path filePath then st else scheduleWriteFiles now st)"

definition on_unlink ::
  "engine \<Rightarrow> bool \<Rightarrow> int \<Rightarrow> int \<Rightarrow> int \<Rightarrow> ustring \<Rightarrow> monitor \<Rightarrow> monitor" where
  "on_unlink js archive_ok t1 t2 now filePath st =
     (if ignored_path filePath then st
      else
        let taskListId = basename (dirname filePath);
            st1 = (case taskDataCache st taskListId of
                     None \<Rightarrow> st
                   | Some (tasks, lastModified) \<Rightarrow>
                       if length tasks > 0 then
                         (archiveTaskList js archive_ok t1 t2 taskListId tasks st)
                           \<lparr>taskDataCache := (taskDataCache st)(taskListId := None)\<rparr>
                       else st)
        in scheduleWriteFiles now st1)"

text \<open>The config watcher's \<^verbatim>\<open>change\<close> handler: the file is loaded whole.\<close>

definition on_config_change :: "ustring \<Rightarrow> int \<Rightarrow> monitor \<Rightarrow> monitor" where
  "on_config_change cwd now st =
     scheduleWriteFiles now (st\<lparr>currentConfig := loadConfig cwd (config_file st)\<rparr>)"

subsection \<open>The configuration API\<close>

datatype response = Response nat json

definition error_body :: "ustring \<Rightarrow> json" where
  "error_body e = JObj [(str ''error'', JStr e)]"

text \<open>\<^verbatim>\<open>GET /api/config\<close>\<close>

definition get_config :: "monitor \<Rightarrow> response" where
  "get_config st = Response 200 (config_json (currentConfig st))"

text \<open>\<^verbatim>\<open>POST /api/config\<close>. \<open>body\<close> is what \<^verbatim>\<open>JSON.parse\<close> makes of the request body
  (\<open>None\<close>: it throws). Every exception inside the handler, also that of a failing
  \<^verbatim>\<open>saveConfig\<close> (\<open>write_ok\<close> false), is answered with \<^verbatim>\<open>Invalid JSON\<close>. The live
  configuration is assigned before \<^verbatim>\<open>saveConfig\<close> is called.\<close>

definition post_config ::
  "engine \<Rightarrow> bool \<Rightarrow> int \<Rightarrow> json option \<Rightarrow> monitor \<Rightarrow> monitor \<times> response" where
  "post_config js write_ok now body st =
     (case body of
        None \<Rightarrow> (st, Response 400 (error_body (str ''Invalid JSON'')))
      | Some input \<Rightarrow>
          (case validateConfig js (currentConfig st) input of
             None \<Rightarrow> (st, Response 400 (error_body (str ''Invalid JSON'')))
           | Some (Invalid e) \<Rightarrow> (st, Response 400 (error_body e))
           | Some (Valid config) \<Rightarrow>
               let st1 = st\<lparr>currentConfig := config\<rparr> in
               if write_ok
               then (scheduleWriteFiles now (saveConfig (currentConfig st1) st1),
                     Response 200 (config_json (currentConfig st1)))
               else (st1, Response 400 (error_body (str ''Invalid JSON'')))))"

subsection \<open>Start of the process\<close>

text \<open>\<^verbatim>\<open>main\<close> up to the first \<^verbatim>\<open>writeFiles\<close>: the configuration is loaded, written
  back when there was no file, and the first snapshot is published.\<close>

definition main ::
  "engine \<Rightarrow> ustring \<Rightarrow> ustring \<Rightarrow> tasks_dir \<Rightarrow> bool \<Rightarrow> config_file_state \<Rightarrow> monitor" where
  "main js TASKS_DIR cwd tdir write_ok cf =
     (let config = loadConfig cwd cf;
          st = \<lparr>currentConfig = config, config_file = cf, taskDataCache = Map.empty,
                writeDebounceTimer = None, archive_dir = Map.empty, data_file = None,
                passes = 0\<rparr>;
          st' = (if cf = NoConfigFile then saveConfig config st else st)
      in writeFiles js TASKS_DIR tdir write_ok st')"

subsection \<open>A run of events\<close>

text \<open>
  What the process reacts to, each with what the environment decides for it: a task file
  added, changed or removed (the path as the watcher reports it; for a removal, whether
  the archive can be written and the two readings of the clock), the configuration file
  edited from outside (what is in the file afterwards), and a \<^verbatim>\<open>POST /api/config\<close>
  (the parsed body, and whether the configuration file can be written). \<open>handle\<close> runs
  the handler that the source registers for the event.
\<close>

datatype event =
    FileAdded ustring
  | FileChanged ustring
  | FileRemoved ustring bool int int
  | ConfigFileEdited config_file_state
  | ConfigPosted "json option" bool

fun handle :: "engine \<Rightarrow> ustring \<Rightarrow> int \<Rightarrow> event \<Rightarrow> monitor \<Rightarrow> monitor" where
  "handle js cwd now (FileAdded filePath) st = on_add now filePath st"
| "handle js cwd now (FileChanged filePath) st = on_change now filePath st"
| "handle js cwd now (FileRemoved filePath archive_ok t1 t2) st =
     on_unlink js archive_ok t1 t2 now filePath st"
| "handle js cwd now (ConfigFileEdited cf) st = on_config_change cwd now (st\<lparr>config_file := cf\<rparr>)"
| "handle js cwd now (ConfigPosted body write_ok) st = fst (post_config js write_ok now body st)"

text \<open>Events are handled one at a time, each at the time at which it arrives. Before an
  event is handled the event loop has reached its time, so a timer that was due has
  fired. \<open>tree\<close> gives the watched tree as it is at each time.\<close>

fun events ::
  "engine \<Rightarrow> ustring \<Rightarrow> ustring \<Rightarrow> (int \<Rightarrow> tasks_dir) \<Rightarrow> bool
     \<Rightarrow> (int \<times> event) list \<Rightarrow> monitor \<Rightarrow> monitor" where
  "events js TASKS_DIR cwd tree write_ok [] st = st"
| "events js TASKS_DIR cwd tree write_ok ((t, ev) # es) st =
     events js TASKS_DIR cwd tree write_ok es
       (handle js cwd t ev (run_timers js TASKS_DIR (tree t) write_ok t st))"

section \<open>Notions used in the statements\<close>

text \<open>A task file of a list directory is an entry whose name ends in \<^verbatim>\<open>.json\<close>. It is
  \<open>malformed\<close> when the aggregator's test \<^verbatim>\<open>if (task)\<close> on what \<^verbatim>\<open>readTaskFile\<close>
  returns for it fails.\<close>

definition is_task_file :: "task_file \<Rightarrow> bool" where
  "is_task_file f = endsWith (f_name f) (str ''.json'')"

definition malformed :: "task_file \<Rightarrow> bool" where
  "malformed f = (\<not> truthy (readTaskFile (f_content f)))"

text \<open>The tasks of a directory in scan order: what the file loop pushes.\<close>

definition scanned_tasks :: "task_file list \<Rightarrow> json list" where
  "scanned_tasks files =
     map (\<lambda>f. readTaskFile (f_content f))
       (filter (\<lambda>f. is_task_file f \<and> \<not> malformed f) files)"

text \<open>\<open>statSync\<close> succeeds on every file that yields a task.\<close>

definition stat_ok :: "task_file list \<Rightarrow> bool" where
  "stat_ok files = list_all (\<lambda>f. is_task_file f \<and> \<not> malformed f \<longrightarrow> f_mtime f \<noteq> None) files"

text \<open>The order of the numbers that are not NaN, and a key that represents it.\<close>

fun num_le :: "jsnum \<Rightarrow> jsnum \<Rightarrow> bool" where
  "num_le (Num a) (Num b) = (a \<le> b)"
| "num_le NInf b = (b \<noteq> NaN)"
| "num_le a PInf = (a \<noteq> NaN)"
| "num_le a b = False"

fun num_key :: "jsnum \<Rightarrow> int \<times> rat" where
  "num_key (Num r) = (0, r)"
| "num_key NInf = (- 1, 0)"
| "num_key PInf = (1, 0)"
| "num_key NaN = (2, 0)"

text \<open>The order of two tasks by the number that \<^verbatim>\<open>parseInt\<close> makes of their ids.\<close>

definition id_le :: "engine \<Rightarrow> json \<Rightarrow> json \<Rightarrow> bool" where
  "id_le js a b =
     (case (task_num js a, task_num js b) of
        (Some x, Some y) \<Rightarrow> num_le x y
      | _ \<Rightarrow> False)"

text \<open>
  When a pass throws. The comparator of the sort of a list's tasks throws on a task whose
  id cannot be converted to a string, and the sort calls it when there are two tasks or
  more. The sort is reached in a directory, other than \<^verbatim>\<open>.archive\<close>, that can be listed
  and in which \<^verbatim>\<open>statSync\<close> succeeds. Nothing catches the exception before
  \<^verbatim>\<open>writeFiles\<close>, and so it is with the exception of listing the root.
\<close>

definition sort_throws :: "engine \<Rightarrow> json list \<Rightarrow> bool" where
  "sort_throws js tasks = (2 \<le> length tasks \<and> list_ex (\<lambda>t. task_num js t = None) tasks)"

fun dir_throws :: "engine \<Rightarrow> dirent \<Rightarrow> bool" where
  "dir_throws js (Other name) = False"
| "dir_throws js (Dir name listing) =
     (name \<noteq> str ''.archive''
      \<and> (case listing of
           None \<Rightarrow> False
         | Some files \<Rightarrow> stat_ok files \<and> sort_throws js (scanned_tasks files)))"

fun pass_throws :: "engine \<Rightarrow> tasks_dir \<Rightarrow> bool" where
  "pass_throws js NoTasksDir = False"
| "pass_throws js Unreadable = True"
| "pass_throws js (Listing ds) = list_ex (dir_throws js) ds"

fun dirent_name :: "dirent \<Rightarrow> ustring" where
  "dirent_name (Other name) = name"
| "dirent_name (Dir name listing) = name"

text \<open>What one entry of the root contributes to \<^verbatim>\<open>getTaskLists\<close> and to
  \<^verbatim>\<open>getAllTaskListSummaries\<close>: one iteration of either loop.\<close>

fun list_of_dir :: "engine \<Rightarrow> dirent \<Rightarrow> ClaudeTaskList option" where
  "list_of_dir js (Other name) = None"
| "list_of_dir js (Dir name listing) =
     (if name = str ''.archive'' then None
      else case listing of
        None \<Rightarrow> None
      | Some taskFiles \<Rightarrow>
          (case scan_task_files taskFiles [] 0 of
             None \<Rightarrow> None
           | Some (tasks, lastModified) \<Rightarrow>
               if length tasks > 0 then
                 (case js_sort (task_cmp js) tasks of
                    None \<Rightarrow> None
                  | Some sortedTasks \<Rightarrow>
                      Some \<lparr>tl_id = name, tl_tasks = sortedTasks,
                            tl_lastModified = lastModified\<rparr>)
               else None))"

fun summary_of_dir :: "ustring \<Rightarrow> dirent \<Rightarrow> TaskListSummary option" where
  "summary_of_dir TASKS_DIR (Other name) = None"
| "summary_of_dir TASKS_DIR (Dir name listing) =
     (if name = str ''.archive'' then None
      else case listing of
        None \<Rightarrow> None
      | Some taskFiles \<Rightarrow>
          (case scan_task_files taskFiles [] 0 of
             None \<Rightarrow> None
           | Some (tasks, lastModified) \<Rightarrow>
               if length tasks > 0 then
                 Some \<lparr>s_id = name,
                       s_path = TASKS_DIR @ str ''/'' @ name,
                       s_taskCount = length tasks,
                       s_pendingCount = length (filter (has_status (str ''pending'')) tasks),
                       s_inProgressCount =
                         length (filter (has_status (str ''in_progress'')) tasks),
                       s_completedCount = length (filter (has_status (str ''completed'')) tasks),
                       s_lastModified = lastModified,
                       s_hasPrompt = (str ''prompt.md'' \<in> set (map f_name taskFiles))\<rparr>
               else None))"


text \<open>A list and a summary that describe the same directory.\<close>

definition same_list :: "ClaudeTaskList \<Rightarrow> TaskListSummary \<Rightarrow> bool" where
  "same_list l s = (tl_id l = s_id s \<and> length (tl_tasks l) = s_taskCount s
                     \<and> tl_lastModified l = s_lastModified s)"

subsection \<open>Validity of the fields of an update\<close>

text \<open>The three tests that \<^verbatim>\<open>validateConfig\<close> makes on the fields of an update, each as a
  predicate on the value of the field. The value of \<^verbatim>\<open>pollInterval\<close> is valid when
  \<^verbatim>\<open>Number\<close> converts it, without throwing, to a number in the range.\<close>

fun valid_projectDir :: "json \<Rightarrow> bool" where
  "valid_projectDir (JStr s) = (trim s \<noteq> [])"
| "valid_projectDir _ = False"

definition poll_ok :: "rat \<Rightarrow> bool" where
  "poll_ok r = (500 \<le> r \<and> r \<le> 60000)"

definition valid_pollInterval :: "engine \<Rightarrow> json \<Rightarrow> bool" where
  "valid_pollInterval js v =
     (case Number js (Some v) of Some (Num r) \<Rightarrow> poll_ok r | _ \<Rightarrow> False)"

fun valid_agentNames :: "json \<Rightarrow> bool" where
  "valid_agentNames (JArr ns) = (ns \<noteq> [] \<and> list_all nonblank_string ns)"
| "valid_agentNames _ = False"

text \<open>A field of an update object is acceptable when it is absent or valid.\<close>

definition field_ok :: "(json \<Rightarrow> bool) \<Rightarrow> json option \<Rightarrow> bool" where
  "field_ok valid field = (case field of None \<Rightarrow> True | Some v \<Rightarrow> valid v)"

definition update_valid :: "engine \<Rightarrow> json \<Rightarrow> bool" where
  "update_valid js input =
     (field_ok valid_projectDir (get_prop input (str ''projectDir''))
      \<and> field_ok (valid_pollInterval js) (get_prop input (str ''pollInterval''))
      \<and> field_ok valid_agentNames (get_prop input (str ''agentNames'')))"

text \<open>The error message names a field of the update that is present and invalid.\<close>

definition names_invalid_field :: "engine \<Rightarrow> json \<Rightarrow> ustring \<Rightarrow> bool" where
  "names_invalid_field js input e =
     ((e = str ''projectDir must be a non-empty string''
         \<and> \<not> field_ok valid_projectDir (get_prop input (str ''projectDir'')))
      \<or> (e = str ''pollInterval must be a number between 500 and 60000''
         \<and> \<not> field_ok (valid_pollInterval js) (get_prop input (str ''pollInterval'')))
      \<or> ((e = str ''agentNames must be a non-empty array of strings''
           \<or> e = str ''Each agent name must be a non-empty string'')
         \<and> \<not> field_ok valid_agentNames (get_prop input (str ''agentNames''))))"

text \<open>The conversion of the \<^verbatim>\<open>pollInterval\<close> of an update throws, and is reached: the
  field \<^verbatim>\<open>projectDir\<close>, which is checked before, is acceptable.\<close>

definition conversion_throws :: "engine \<Rightarrow> json \<Rightarrow> bool" where
  "conversion_throws js input =
     (field_ok valid_projectDir (get_prop input (str ''projectDir''))
      \<and> (case get_prop input (str ''pollInterval'') of
           None \<Rightarrow> False
         | Some v \<Rightarrow> Number js (Some v) = None))"

fun num_val :: "jsnum \<Rightarrow> rat" where
  "num_val (Num r) = r"
| "num_val _ = 0"

text \<open>The configuration in which the fields present in a valid update replace those of
  \<open>cur\<close>: strings trimmed, the interval converted to a number.\<close>

definition apply_update :: "engine \<Rightarrow> json \<Rightarrow> MonitorConfig \<Rightarrow> MonitorConfig" where
  "apply_update js input cur =
     \<lparr>projectDir =
        (case get_prop input (str ''projectDir'') of
           None \<Rightarrow> projectDir cur | Some v \<Rightarrow> trim (the_str v)),
      pollInterval =
        (case get_prop input (str ''pollInterval'') of
           None \<Rightarrow> pollInterval cur
         | Some v \<Rightarrow> (case Number js (Some v) of Some n \<Rightarrow> num_val n | None \<Rightarrow> 0)),
      agentNames =
        (case get_prop input (str ''agentNames'') of
           Some (JArr ns) \<Rightarrow> map (\<lambda>n. trim (the_str n)) ns
         | _ \<Rightarrow> agentNames cur)\<rparr>"

subsection \<open>Bursts of requests\<close>

text \<open>
  The events that request a regeneration, by the guards of their handlers: a file event
  on a path that ends in \<^verbatim>\<open>.json\<close> and does not contain \<^verbatim>\<open>.archive\<close>, an edit of the
  configuration file, and a \<^verbatim>\<open>POST\<close> that is accepted and persisted (its body is an
  array, which has no field, or an object whose fields are acceptable, and the file can
  be written).
\<close>

fun accepted_body :: "engine \<Rightarrow> json option \<Rightarrow> bool" where
  "accepted_body js (Some (JObj kvs)) = update_valid js (JObj kvs)"
| "accepted_body js (Some (JArr xs)) = True"
| "accepted_body js _ = False"

fun requests_regeneration :: "engine \<Rightarrow> event \<Rightarrow> bool" where
  "requests_regeneration js (FileAdded filePath) = (\<not> ignored_path filePath)"
| "requests_regeneration js (FileChanged filePath) = (\<not> ignored_path filePath)"
| "requests_regeneration js (FileRemoved filePath archive_ok t1 t2) = (\<not> ignored_path filePath)"
| "requests_regeneration js (ConfigFileEdited cf) = True"
| "requests_regeneration js (ConfigPosted body write_ok) = (write_ok \<and> accepted_body js body)"

text \<open>Request times in which each request comes no earlier than the one before it and
  less than 300 ms after it.\<close>

fun within_window :: "int list \<Rightarrow> bool" where
  "within_window [] = True"
| "within_window [t] = True"
| "within_window (t # u # ts) = (t \<le> u \<and> u < t + 300 \<and> within_window (u # ts))"

section \<open>Concrete scenarios\<close>

text \<open>In the scenarios every task id and every \<^verbatim>\<open>pollInterval\<close> is a string that
  \<^verbatim>\<open>parseInt\<close> reads itself, a number that needs no conversion, or an object on which
  the conversion throws, so the three functions of the runtime are never consulted. The
  engine of the scenarios answers with constants; its clock prints one fixed instant.\<close>

definition fixed_engine :: engine where
  "fixed_engine =
     \<lparr>numberToString = (\<lambda>r. []),
      stringToNumber = (\<lambda>s. NaN),
      toISOString = (\<lambda>t. str ''2026-01-01T00:00:00.000Z'')\<rparr>"

definition mk_task :: "string \<Rightarrow> string \<Rightarrow> json" where
  "mk_task i st =
     JObj [(str ''id'', JStr (str i)), (str ''subject'', JStr (str ''work'')),
           (str ''status'', JStr (str st))]"

definition mk_file :: "string \<Rightarrow> read_result \<Rightarrow> int \<Rightarrow> task_file" where
  "mk_file name content m = \<lparr>f_name = str name, f_content = content, f_mtime = Some m\<rparr>"

text \<open>A list whose ids are \<open>2, 10, 2, 1\<close> in scan order.\<close>

definition ids_numeric_files :: "task_file list" where
  "ids_numeric_files =
     [mk_file ''a.json'' (Parsed (mk_task ''2'' ''pending'')) 10,
      mk_file ''b.json'' (Parsed (mk_task ''10'' ''completed'')) 20,
      mk_file ''c.json'' (Parsed (mk_task ''2'' ''in_progress'')) 30,
      mk_file ''d.json'' (Parsed (mk_task ''1'' ''pending'')) 40]"

text \<open>A list whose ids are \<open>3, x, 1\<close> in scan order.\<close>

definition ids_mixed_files :: "task_file list" where
  "ids_mixed_files =
     [mk_file ''a.json'' (Parsed (mk_task ''3'' ''pending'')) 10,
      mk_file ''b.json'' (Parsed (mk_task ''x'' ''pending'')) 20,
      mk_file ''c.json'' (Parsed (mk_task ''1'' ''pending'')) 30]"

text \<open>A list whose ids, in scan order, are \<open>2\<^sup>5\<^sup>3 + 1\<close>, \<open>2\<^sup>5\<^sup>3\<close> and 7 after a
  no-break space. The first two are read as the same double.\<close>

definition ids_large_files :: "task_file list" where
  "ids_large_files =
     [mk_file ''a.json'' (Parsed (mk_task ''9007199254740993'' ''pending'')) 10,
      mk_file ''b.json'' (Parsed (mk_task ''9007199254740992'' ''completed'')) 20,
      mk_file ''c.json'' (Parsed (JObj [(str ''id'', JStr (0xA0 # str ''7''))])) 30]"

text \<open>A task whose id is an object with a property named \<^verbatim>\<open>toString\<close>, and a directory
  that holds it beside another task.\<close>

definition odd_task :: json where
  "odd_task = JObj [(str ''id'', JObj [(str ''toString'', JNum 1)])]"

definition odd_files :: "task_file list" where
  "odd_files =
     [mk_file ''1.json'' (Parsed (mk_task ''1'' ''pending'')) 10,
      mk_file ''2.json'' (Parsed odd_task) 20]"

text \<open>The scenario of the specification: \<open>proj-a\<close> with two tasks (one pending, one
  completed), last touched at time 1000, listed before \<open>proj-b\<close> with one task in
  progress, touched at time 2000.\<close>

definition two_lists :: tasks_dir where
  "two_lists =
     Listing
       [Dir (str ''proj-a'')
          (Some [mk_file ''1.json'' (Parsed (mk_task ''1'' ''pending'')) 900,
                 mk_file ''2.json'' (Parsed (mk_task ''2'' ''completed'')) 1000]),
        Dir (str ''proj-b'')
          (Some [mk_file ''1.json'' (Parsed (mk_task ''1'' ''in_progress'')) 2000])]"

definition idle :: monitor where
  "idle =
     \<lparr>currentConfig = DEFAULT_CONFIG (str ''/work''), config_file = NoConfigFile,
      taskDataCache = Map.empty, writeDebounceTimer = None, archive_dir = Map.empty,
      data_file = None, passes = 0\<rparr>"

text \<open>A directory of ten entries: a task, a bare string, an object with none of the
  fields of a task, four falsy values, a file that is not JSON, one that cannot be read,
  and a file that is no task file.\<close>

definition mixed_files :: "task_file list" where
  "mixed_files =
     [mk_file ''1.json'' (Parsed (mk_task ''1'' ''pending'')) 10,
      mk_file ''2.json'' (Parsed (JStr (str ''hello''))) 20,
      mk_file ''3.json'' (Parsed (JObj [])) 30,
      mk_file ''4.json'' (Parsed JNull) 40,
      mk_file ''5.json'' (Parsed (JBool False)) 50,
      mk_file ''6.json'' (Parsed (JNum 0)) 60,
      mk_file ''7.json'' (Parsed (JStr [])) 70,
      mk_file ''8.json'' NotJSON 80,
      \<lparr>f_name = str ''9.json'', f_content = ReadFails, f_mtime = None\<rparr>,
      mk_file ''prompt.md'' NotJSON 90]"

text \<open>A directory whose two task files both parse, one of them to the number 0.\<close>

definition zero_files :: "task_file list" where
  "zero_files =
     [mk_file ''1.json'' (Parsed (mk_task ''1'' ''pending'')) 10,
      mk_file ''2.json'' (Parsed (JNum 0)) 20]"

text \<open>A directory in which no task can be read.\<close>

definition unreadable_files :: "task_file list" where
  "unreadable_files =
     [mk_file ''1.json'' NotJSON 10,
      \<lparr>f_name = str ''2.json'', f_content = ReadFails, f_mtime = None\<rparr>]"

definition custom_config :: MonitorConfig where
  "custom_config =
     \<lparr>projectDir = str ''/srv/app'', pollInterval = 1500, agentNames = [str ''x'', str ''y'']\<rparr>"

text \<open>The tree of \<open>two_lists\<close> after \<^verbatim>\<open>proj-a/2.json\<close> has been removed, and after both
  files of \<open>proj-a\<close> have been removed.\<close>

definition two_lists_less_one :: tasks_dir where
  "two_lists_less_one =
     Listing
       [Dir (str ''proj-a'')
          (Some [mk_file ''1.json'' (Parsed (mk_task ''1'' ''pending'')) 900]),
        Dir (str ''proj-b'')
          (Some [mk_file ''1.json'' (Parsed (mk_task ''1'' ''in_progress'')) 2000])]"

definition two_lists_less_a :: tasks_dir where
  "two_lists_less_a =
     Listing
       [Dir (str ''proj-a'') (Some []),
        Dir (str ''proj-b'')
          (Some [mk_file ''1.json'' (Parsed (mk_task ''1'' ''in_progress'')) 2000])]"

text \<open>The process after its first pass over \<open>two_lists\<close>, and the path of a task file of
  \<open>proj-a\<close> as the watcher reports it.\<close>

definition TASKS :: ustring where
  "TASKS = str ''/home/u/.claude/tasks''"

definition after_first_pass :: monitor where
  "after_first_pass = writeFiles fixed_engine TASKS two_lists True idle"

definition removed_path :: ustring where
  "removed_path = str ''/home/u/.claude/tasks/proj-a/2.json''"

definition other_removed_path :: ustring where
  "other_removed_path = str ''/home/u/.claude/tasks/proj-a/1.json''"

text \<open>A burst of five requests, one from each source: a file added, changed and removed,
  the configuration file edited, and a write through the API; and a later request.\<close>

definition mixed_burst :: "(int \<times> event) list" where
  "mixed_burst =
     [(0, FileAdded removed_path),
      (100, FileChanged removed_path),
      (200, FileRemoved removed_path True 200 201),
      (350, ConfigFileEdited (ConfigFile (Parsed (config_json custom_config)))),
      (500, ConfigPosted (Some (JObj [(str ''pollInterval'', JNum 750)])) True)]"

definition late_request :: event where
  "late_request = FileChanged other_removed_path"

section \<open>Properties of strings\<close>

lemma uint_cu: "uint (cu c) = of_char c"
  by (simp add: of_char_def uint_word_of_int take_bit_int_eq_self)

lemma inj_cu: "inj cu"
proof (rule injI)
  fix x y :: char
  assume "cu x = cu y"
  then have "uint (cu x) = uint (cu y)" by simp
  then have "(of_char x :: int) = of_char y" by (simp only: uint_cu)
  then show "x = y" by simp
qed

lemma str_eq_iff [simp]: "str a = str b \<longleftrightarrow> a = b"
  by (simp add: str_def inj_map_eq_map inj_cu)

lemma str_Nil_iff [simp]: "str a = [] \<longleftrightarrow> a = []"
  by (simp add: str_def)

lemma Nil_str_iff [simp]: "[] = str a \<longleftrightarrow> a = []"
  by (auto simp: str_def)

lemma length_str [simp]: "length (str a) = length a"
  by (simp add: str_def)

lemma trim_nonempty: "trim s \<noteq> [] \<Longrightarrow> s \<noteq> []"
  by (auto simp: trim_def)

lemma startsWith_iff: "startsWith s sub \<longleftrightarrow> (\<exists>post. s = sub @ post)"
proof
  assume "startsWith s sub"
  then have "s = sub @ drop (length sub) s"
    by (metis append_take_drop_id startsWith_def)
  then show "\<exists>post. s = sub @ post" ..
next
  assume "\<exists>post. s = sub @ post"
  then show "startsWith s sub" by (auto simp: startsWith_def)
qed

lemma str_includes_iff: "str_includes s sub \<longleftrightarrow> (\<exists>pre post. s = pre @ sub @ post)"
proof (induction s)
  case Nil
  then show ?case by simp
next
  case (Cons c cs)
  show ?case
  proof
    assume "str_includes (c # cs) sub"
    then consider "startsWith (c # cs) sub" | "str_includes cs sub" by auto
    then show "\<exists>pre post. c # cs = pre @ sub @ post"
    proof cases
      case 1
      then obtain post where "c # cs = [] @ sub @ post" by (auto simp: startsWith_iff)
      then show ?thesis by blast
    next
      case 2
      with Cons obtain pre post where "cs = pre @ sub @ post" by auto
      then have "c # cs = (c # pre) @ sub @ post" by simp
      then show ?thesis by blast
    qed
  next
    assume "\<exists>pre post. c # cs = pre @ sub @ post"
    then obtain pre post where e: "c # cs = pre @ sub @ post" by auto
    show "str_includes (c # cs) sub"
    proof (cases pre)
      case Nil
      with e have "startsWith (c # cs) sub" by (auto simp: startsWith_iff)
      then show ?thesis by simp
    next
      case (Cons a pre')
      with e have "cs = pre' @ sub @ post" by simp
      with Cons.IH have "str_includes cs sub" by blast
      then show ?thesis by simp
    qed
  qed
qed

lemma basename_part: "\<exists>pre post. p = pre @ basename p @ post"
proof -
  let ?Q = "\<lambda>c. c = cu CHR ''/''"
  let ?P = "\<lambda>c. c \<noteq> cu CHR ''/''"
  let ?B = "dropWhile ?Q (rev p)"
  have 1: "rev p = takeWhile ?Q (rev p) @ ?B" by simp
  have 2: "?B = takeWhile ?P ?B @ dropWhile ?P ?B" by simp
  have "rev p = takeWhile ?Q (rev p) @ takeWhile ?P ?B @ dropWhile ?P ?B"
    using 1 2 by metis
  then have "rev (rev p) = rev (takeWhile ?Q (rev p) @ takeWhile ?P ?B @ dropWhile ?P ?B)"
    by (rule arg_cong)
  then have "p = rev (dropWhile ?P ?B) @ rev (takeWhile ?P ?B) @ rev (takeWhile ?Q (rev p))"
    by (simp only: rev_rev_ident rev_append append_assoc)
  then have "p = rev (dropWhile ?P ?B) @ basename p @ rev (takeWhile ?Q (rev p))"
    by (simp only: basename_def)
  then show ?thesis by blast
qed

lemma dirname_cases:
  "dirname p = str ''.'' \<or> dirname p = str ''/'' \<or> dirname p = str ''//''
   \<or> (\<exists>n. dirname p = take n p)"
  unfolding dirname_def Let_def
  by (simp only: split: if_split) blast

lemma list_id_part:
  assumes "basename (dirname p) = str ''.archive''"
  shows "str_includes p (str ''.archive'')"
proof -
  have a: "basename (str ''.'') \<noteq> str ''.archive''" by code_simp
  have b: "basename (str ''/'') \<noteq> str ''.archive''" by code_simp
  have c: "basename (str ''//'') \<noteq> str ''.archive''" by code_simp
  from dirname_cases [of p] assms a b c obtain n where n: "dirname p = take n p" by metis
  from basename_part [of "take n p"] obtain pre post where
    "take n p = pre @ basename (take n p) @ post" by blast
  with assms n have t: "take n p = pre @ str ''.archive'' @ post" by metis
  have "p = take n p @ drop n p" by simp
  also have "\<dots> = (pre @ str ''.archive'' @ post) @ drop n p" by (simp only: t)
  finally have "p = pre @ str ''.archive'' @ (post @ drop n p)" by simp
  then show ?thesis unfolding str_includes_iff by blast
qed

lemma list_id_not_archive: "\<not> ignored_path p \<Longrightarrow> basename (dirname p) \<noteq> str ''.archive''"
  using list_id_part [of p] by (auto simp: ignored_path_def)

section \<open>Properties of the sort and of the scans\<close>

text \<open>With a comparator that does not throw and that orders as a key does, the sort is
  the stable insertion sort by that key.\<close>

lemma js_insert_insort_key:
  assumes "\<And>y. y \<in> set ys \<Longrightarrow> \<exists>v. cmp x y = Some v \<and> (cmp_le0 v \<longleftrightarrow> key x \<le> key y)"
  shows "js_insert cmp x ys = Some (insort_key key x ys)"
  using assms
proof (induction ys)
  case Nil
  then show ?case by simp
next
  case (Cons y ys)
  from Cons.prems [of y] obtain v where v: "cmp x y = Some v" "cmp_le0 v \<longleftrightarrow> key x \<le> key y"
    by auto
  have "js_insert cmp x ys = Some (insort_key key x ys)"
    by (rule Cons.IH) (simp add: Cons.prems)
  with v show ?case by simp
qed

lemma js_sort_sort_key:
  assumes "\<And>x y. x \<in> set xs \<Longrightarrow> y \<in> set xs \<Longrightarrow>
             \<exists>v. cmp x y = Some v \<and> (cmp_le0 v \<longleftrightarrow> key x \<le> key y)"
  shows "js_sort cmp xs = Some (sort_key (key :: 'a \<Rightarrow> 'k :: linorder) xs)"
  using assms
proof (induction xs)
  case Nil
  then show ?case by simp
next
  case (Cons x xs)
  have ih: "js_sort cmp xs = Some (sort_key key xs)" using Cons by simp
  have "js_insert cmp x (sort_key key xs) = Some (insort_key key x (sort_key key xs))"
    by (rule js_insert_insort_key) (simp add: Cons.prems)
  then show ?case using ih by simp
qed

lemma mset_js_insert: "js_insert cmp x ys = Some zs \<Longrightarrow> mset zs = add_mset x (mset ys)"
proof (induction ys arbitrary: zs)
  case Nil
  then show ?case by auto
next
  case (Cons y ys)
  then show ?case by (auto split: option.splits if_splits)
qed

lemma mset_js_sort: "js_sort cmp xs = Some ys \<Longrightarrow> mset ys = mset xs"
proof (induction xs arbitrary: ys)
  case Nil
  then show ?case by simp
next
  case (Cons x xs)
  then show ?case by (auto split: option.splits dest: mset_js_insert)
qed

lemma length_js_sort: "js_sort cmp xs = Some ys \<Longrightarrow> length ys = length xs"
  using mset_js_sort [of cmp xs ys] by (metis size_mset)

lemma set_js_sort: "js_sort cmp xs = Some ys \<Longrightarrow> set ys = set xs"
  using mset_js_sort [of cmp xs ys] by (metis set_mset_mset)

text \<open>When the sort throws: a comparator that throws exactly on the elements of a
  certain kind is called on each element as soon as there are two.\<close>

lemma js_insert_None_iff:
  assumes "\<And>a b. cmp a b = None \<longleftrightarrow> bad a \<or> bad b"
    and "\<forall>y \<in> set ys. \<not> bad y"
  shows "js_insert cmp x ys = None \<longleftrightarrow> bad x \<and> ys \<noteq> []"
  using assms(2)
proof (induction ys)
  case Nil
  then show ?case by simp
next
  case (Cons y ys)
  show ?case
  proof (cases "bad x")
    case True
    with assms(1) [of x y] have "cmp x y = None" by simp
    with True show ?thesis by simp
  next
    case False
    with Cons.prems assms(1) [of x y] obtain v where "cmp x y = Some v" by auto
    with False Cons show ?thesis by simp
  qed
qed

lemma js_sort_None_iff:
  assumes "\<And>a b. cmp a b = None \<longleftrightarrow> bad a \<or> bad b"
  shows "js_sort cmp xs = None \<longleftrightarrow> 2 \<le> length xs \<and> (\<exists>x \<in> set xs. bad x)"
proof (induction xs)
  case Nil
  then show ?case by simp
next
  case (Cons x xs)
  show ?case
  proof (cases xs)
    case Nil
    then show ?thesis by simp
  next
    case (Cons a xs')
    show ?thesis
    proof (cases xs')
      case Nil
      with Cons assms [of x a] show ?thesis
        by (cases "cmp x a") auto
    next
      case (Cons b xs'')
      with \<open>xs = a # xs'\<close> have len: "2 \<le> length xs" by simp
      show ?thesis
      proof (cases "js_sort cmp xs")
        case None
        with Cons.IH len show ?thesis by auto
      next
        case (Some ys)
        with Cons.IH len have nb: "\<forall>y \<in> set xs. \<not> bad y" by auto
        from set_js_sort [OF Some] nb have nb': "\<forall>y \<in> set ys. \<not> bad y" by simp
        from length_js_sort [OF Some] len have "ys \<noteq> []" by auto
        with js_insert_None_iff [of cmp bad ys x, OF assms nb'] Some nb len
        show ?thesis by auto
      qed
    qed
  qed
qed

lemma task_cmp_None_iff:
  "task_cmp js a b = None \<longleftrightarrow> task_num js a = None \<or> task_num js b = None"
  by (auto simp: task_cmp_def split: option.splits)

lemma sort_throws_iff: "js_sort (task_cmp js) tasks = None \<longleftrightarrow> sort_throws js tasks"
  unfolding sort_throws_def list_ex_iff
  by (rule js_sort_None_iff) (rule task_cmp_None_iff)

lemma cmp_le0_minus:
  assumes "x \<noteq> NaN" and "y \<noteq> NaN"
  shows "cmp_le0 (js_minus x y) \<longleftrightarrow> num_key x \<le> num_key y"
  using assms by (cases x; cases y) (auto simp: cmp_le0_def)

lemma num_le_key:
  assumes "x \<noteq> NaN" and "y \<noteq> NaN"
  shows "num_le x y \<longleftrightarrow> num_key x \<le> num_key y"
  using assms by (cases x; cases y) auto

lemma num_key_inj:
  assumes "x \<noteq> NaN" and "y \<noteq> NaN"
  shows "num_key x = num_key y \<longleftrightarrow> x = y"
  using assms by (cases x; cases y) auto

lemma scan_task_files_acc:
  "scan_task_files files acc lm = Some (ts, lm') \<Longrightarrow> ts = acc @ scanned_tasks files"
proof (induction files arbitrary: acc lm)
  case Nil
  then show ?case by (simp add: scanned_tasks_def)
next
  case (Cons f fs)
  show ?case
  proof (cases "is_task_file f \<and> \<not> malformed f")
    case True
    then obtain m where m: "f_mtime f = Some m"
      using Cons.prems by (cases "f_mtime f") (auto simp: is_task_file_def malformed_def)
    from Cons.prems True m
    have "scan_task_files fs (acc @ [readTaskFile (f_content f)]) (if m > lm then m else lm) = Some (ts, lm')"
      by (simp add: is_task_file_def malformed_def)
    from Cons.IH [OF this] True show ?thesis by (simp add: scanned_tasks_def)
  next
    case False
    with Cons.prems have "scan_task_files fs acc lm = Some (ts, lm')"
      by (auto simp: is_task_file_def malformed_def split: if_splits)
    from Cons.IH [OF this] False show ?thesis by (auto simp: scanned_tasks_def)
  qed
qed

lemma scan_task_files_Some:
  "stat_ok files \<Longrightarrow> \<exists>lm'. scan_task_files files acc lm = Some (acc @ scanned_tasks files, lm')"
proof (induction files arbitrary: acc lm)
  case Nil
  then show ?case by (simp add: scanned_tasks_def)
next
  case (Cons f fs)
  then have ok: "stat_ok fs" by (simp add: stat_ok_def)
  show ?case
  proof (cases "is_task_file f \<and> \<not> malformed f")
    case True
    then obtain m where m: "f_mtime f = Some m"
      using Cons.prems by (cases "f_mtime f") (auto simp: stat_ok_def)
    from Cons.IH [OF ok, of "acc @ [readTaskFile (f_content f)]" "if m > lm then m else lm"]
    show ?thesis using True m by (auto simp: is_task_file_def malformed_def scanned_tasks_def)
  next
    case False
    from Cons.IH [OF ok, of acc lm]
    show ?thesis using False by (auto simp: is_task_file_def malformed_def scanned_tasks_def)
  qed
qed

lemma scan_task_files_None:
  "\<not> stat_ok files \<Longrightarrow> scan_task_files files acc lm = None"
proof (induction files arbitrary: acc lm)
  case Nil
  then show ?case by (simp add: stat_ok_def)
next
  case (Cons f fs)
  show ?case
  proof (cases "is_task_file f \<and> \<not> malformed f")
    case True
    show ?thesis
    proof (cases "f_mtime f")
      case None
      with True show ?thesis by (simp add: is_task_file_def malformed_def)
    next
      case (Some m)
      with True Cons.prems have "\<not> stat_ok fs" by (simp add: stat_ok_def)
      from Cons.IH [OF this] True Some show ?thesis
        by (simp add: is_task_file_def malformed_def)
    qed
  next
    case False
    with Cons.prems have "\<not> stat_ok fs" by (auto simp: stat_ok_def)
    from Cons.IH [OF this] False show ?thesis
      by (auto simp: is_task_file_def malformed_def)
  qed
qed

lemma scan_cases:
  obtains (fails) "\<not> stat_ok files" "scan_task_files files [] 0 = None"
  | (scans) lm where "stat_ok files" "scan_task_files files [] 0 = Some (scanned_tasks files, lm)"
proof (cases "stat_ok files")
  case True
  from scan_task_files_Some [OF True, of "[]" 0] obtain lm where
    "scan_task_files files [] 0 = Some (scanned_tasks files, lm)" by auto
  with True show ?thesis by (rule scans)
next
  case False
  from False scan_task_files_None [OF False, of "[]" 0] show ?thesis by (rule fails)
qed

text \<open>One iteration of the loop of \<^verbatim>\<open>getTaskLists\<close>: the entry is skipped, the sort of
  its tasks throws, or a list is appended and cached.\<close>

lemma dir_throws_step:
  assumes "dir_throws js d"
  shows "getTaskLists_loop js (d # ds) acc cache = (None, cache)" and "list_of_dir js d = None"
proof -
  from assms obtain name files where d: "d = Dir name (Some files)"
    and na: "name \<noteq> str ''.archive''" and ok: "stat_ok files"
    and th: "sort_throws js (scanned_tasks files)"
    by (cases d) (auto split: option.splits)
  from th have ne: "scanned_tasks files \<noteq> []" by (auto simp: sort_throws_def)
  from th have s: "js_sort (task_cmp js) (scanned_tasks files) = None"
    by (simp add: sort_throws_iff)
  from scan_task_files_Some [OF ok, of "[]" 0] obtain lm where
    sc: "scan_task_files files [] 0 = Some (scanned_tasks files, lm)" by auto
  show "getTaskLists_loop js (d # ds) acc cache = (None, cache)"
    using d na sc ne s by simp
  show "list_of_dir js d = None"
    using d na sc ne s by simp
qed

lemma dir_list_step:
  assumes "list_of_dir js d = Some l"
  shows "\<not> dir_throws js d"
    and "getTaskLists_loop js (d # ds) acc cache =
           getTaskLists_loop js ds (acc @ [l])
             (cache(tl_id l \<mapsto> (tl_tasks l, tl_lastModified l)))"
proof -
  from dir_throws_step(2) [of js d] assms show "\<not> dir_throws js d" by auto
  from assms obtain name files where d: "d = Dir name (Some files)"
    and na: "name \<noteq> str ''.archive''"
    by (cases d) (auto split: option.splits if_splits)
  from assms d na obtain tasks lm where sc: "scan_task_files files [] 0 = Some (tasks, lm)"
    by (cases "scan_task_files files [] 0") auto
  from assms d na sc have ne: "tasks \<noteq> []" by (auto split: if_splits)
  from assms d na sc ne obtain sorted where so: "js_sort (task_cmp js) tasks = Some sorted"
    by (cases "js_sort (task_cmp js) tasks") auto
  from assms d na sc ne so
  have l: "l = \<lparr>tl_id = name, tl_tasks = sorted, tl_lastModified = lm\<rparr>" by simp
  show "getTaskLists_loop js (d # ds) acc cache =
           getTaskLists_loop js ds (acc @ [l])
             (cache(tl_id l \<mapsto> (tl_tasks l, tl_lastModified l)))"
    using d na sc ne so l by simp
qed

lemma dir_skip_step:
  assumes "\<not> dir_throws js d" and "list_of_dir js d = None"
  shows "getTaskLists_loop js (d # ds) acc cache = getTaskLists_loop js ds acc cache"
proof (cases d)
  case (Other name)
  then show ?thesis by simp
next
  case (Dir name listing)
  show ?thesis
  proof (cases "name = str ''.archive''")
    case True
    with Dir show ?thesis by simp
  next
    case na: False
    show ?thesis
    proof (cases listing)
      case None
      with Dir na show ?thesis by simp
    next
      case (Some files)
      show ?thesis
      proof (cases files rule: scan_cases)
        case fails
        with Dir na Some show ?thesis by simp
      next
        case (scans lm)
        show ?thesis
        proof (cases "scanned_tasks files = []")
          case True
          with Dir na Some scans show ?thesis by simp
        next
          case False
          from assms(1) Dir na Some scans have "\<not> sort_throws js (scanned_tasks files)" by simp
          then obtain sorted where "js_sort (task_cmp js) (scanned_tasks files) = Some sorted"
            using sort_throws_iff [of js "scanned_tasks files"] by auto
          with assms(2) Dir na Some scans False show ?thesis by simp
        qed
      qed
    qed
  qed
qed

lemma getTaskLists_loop_fst:
  "fst (getTaskLists_loop js ds acc cache) =
     (if list_ex (dir_throws js) ds then None
      else Some (acc @ List.map_filter (list_of_dir js) ds))"
proof (induction ds arbitrary: acc cache)
  case Nil
  then show ?case by (simp add: List.map_filter_simps)
next
  case (Cons d ds)
  show ?case
  proof (cases "dir_throws js d")
    case True
    from dir_throws_step(1) [OF True] True show ?thesis by simp
  next
    case False
    show ?thesis
    proof (cases "list_of_dir js d")
      case None
      from dir_skip_step [OF False None] False None Cons.IH show ?thesis
        by (simp add: List.map_filter_simps del: getTaskLists_loop.simps list_of_dir.simps dir_throws.simps)
    next
      case (Some l)
      from dir_list_step(2) [OF Some] False Some Cons.IH show ?thesis
        by (simp add: List.map_filter_simps del: getTaskLists_loop.simps list_of_dir.simps dir_throws.simps)
    qed
  qed
qed

lemma getAllTaskListSummaries_loop_eq:
  "getAllTaskListSummaries_loop T ds acc = acc @ List.map_filter (summary_of_dir T) ds"
proof (induction ds arbitrary: acc)
  case Nil
  then show ?case by (simp add: List.map_filter_simps)
next
  case (Cons d ds)
  show ?case
  proof (cases d)
    case (Other name)
    then show ?thesis using Cons.IH by (simp add: List.map_filter_simps)
  next
    case (Dir name listing)
    then show ?thesis using Cons.IH
      by (simp add: List.map_filter_simps Let_def split: option.splits prod.splits)
  qed
qed

text \<open>The final sorts do not throw: they are the stable sort by descending
  \<open>lastModified\<close>.\<close>

lemma js_sort_list_cmp:
  "js_sort list_cmp xs = Some (sort_key (\<lambda>l. - tl_lastModified l) xs)"
  by (rule js_sort_sort_key) (simp add: list_cmp_def cmp_le0_def)

lemma js_sort_summary_cmp:
  "js_sort summary_cmp xs = Some (sort_key (\<lambda>s. - s_lastModified s) xs)"
  by (rule js_sort_sort_key) (simp add: summary_cmp_def cmp_le0_def)

lemma getTaskLists_fst:
  "fst (getTaskLists js tdir cache) =
     (if pass_throws js tdir then None
      else Some (case tdir of
                   Listing ds \<Rightarrow>
                     sort_key (\<lambda>l. - tl_lastModified l) (List.map_filter (list_of_dir js) ds)
                 | _ \<Rightarrow> []))"
proof (cases tdir)
  case NoTasksDir
  then show ?thesis by (simp add: getTaskLists_def)
next
  case Unreadable
  then show ?thesis by (simp add: getTaskLists_def)
next
  case (Listing ds)
  obtain r c where r: "getTaskLists_loop js ds [] cache = (r, c)"
    by (cases "getTaskLists_loop js ds [] cache")
  with getTaskLists_loop_fst [of js ds "[]" cache]
  have "r = (if list_ex (dir_throws js) ds then None
             else Some (List.map_filter (list_of_dir js) ds))" by simp
  with Listing r show ?thesis
    by (simp add: getTaskLists_def js_sort_list_cmp)
qed

lemma getTaskLists_None_iff: "fst (getTaskLists js tdir cache) = None \<longleftrightarrow> pass_throws js tdir"
  by (simp add: getTaskLists_fst)

lemma getTaskLists_Listing:
  "fst (getTaskLists js (Listing ds) cache) = Some tls \<Longrightarrow>
     tls = sort_key (\<lambda>l. - tl_lastModified l) (List.map_filter (list_of_dir js) ds)"
  by (simp add: getTaskLists_fst split: if_splits)

lemma getAllTaskListSummaries_eq:
  "getAllTaskListSummaries T tdir =
     (case tdir of
        NoTasksDir \<Rightarrow> Some []
      | Unreadable \<Rightarrow> None
      | Listing ds \<Rightarrow>
          Some (sort_key (\<lambda>s. - s_lastModified s) (List.map_filter (summary_of_dir T) ds)))"
  by (simp add: getAllTaskListSummaries_def js_sort_summary_cmp getAllTaskListSummaries_loop_eq
        split: tasks_dir.splits)

lemma list_of_dir_Some:
  assumes "list_of_dir js d = Some l"
  shows "\<exists>files. d = Dir (tl_id l) (Some files) \<and> tl_id l \<noteq> str ''.archive'' \<and> stat_ok files
           \<and> scanned_tasks files \<noteq> []
           \<and> js_sort (task_cmp js) (scanned_tasks files) = Some (tl_tasks l)"
proof (cases d)
  case (Other name)
  with assms show ?thesis by simp
next
  case (Dir name listing)
  with assms obtain files where files: "listing = Some files" and na: "name \<noteq> str ''.archive''"
    by (cases listing) (auto split: if_splits)
  from assms Dir files na obtain tasks lm where sc: "scan_task_files files [] 0 = Some (tasks, lm)"
    by (cases "scan_task_files files [] 0") auto
  have ok: "stat_ok files" using sc scan_task_files_None [of files "[]" 0] by auto
  have ts: "tasks = scanned_tasks files" using scan_task_files_acc [OF sc] by simp
  from assms Dir files na sc ts ok show ?thesis by (auto split: if_splits option.splits)
qed

lemma published_list:
  assumes "fst (getTaskLists js tdir cache) = Some taskLists"
    and "l \<in> set taskLists"
  shows "\<exists>ds files. tdir = Listing ds \<and> Dir (tl_id l) (Some files) \<in> set ds
           \<and> tl_id l \<noteq> str ''.archive'' \<and> stat_ok files \<and> scanned_tasks files \<noteq> []
           \<and> js_sort (task_cmp js) (scanned_tasks files) = Some (tl_tasks l)"
proof (cases tdir)
  case NoTasksDir
  with assms show ?thesis by (auto simp: getTaskLists_def)
next
  case Unreadable
  with assms show ?thesis by (auto simp: getTaskLists_def)
next
  case (Listing ds)
  with assms(1) have "taskLists = sort_key (\<lambda>l. - tl_lastModified l) (List.map_filter (list_of_dir js) ds)"
    using getTaskLists_Listing by blast
  with assms(2) have "l \<in> set (List.map_filter (list_of_dir js) ds)" by simp
  then obtain d where d: "d \<in> set ds" "list_of_dir js d = Some l"
    by (auto simp: List.map_filter_def)
  from list_of_dir_Some [OF d(2)] d(1) Listing show ?thesis by blast
qed

lemma list_of_dir_id: "list_of_dir js d = Some l \<Longrightarrow> tl_id l = dirent_name d"
  by (cases d) (auto split: if_splits option.splits)

lemma filter_map_filter_other:
  assumes "name \<notin> dirent_name ` set ds"
  shows "filter (\<lambda>l. tl_id l = name) (List.map_filter (list_of_dir js) ds) = []"
  using assms
proof (induction ds)
  case Nil
  then show ?case by (simp add: List.map_filter_simps)
next
  case (Cons d ds)
  then show ?case
    by (cases "list_of_dir js d") (auto simp: List.map_filter_simps dest: list_of_dir_id)
qed

lemma filter_map_filter_dir:
  assumes "distinct (map dirent_name ds)" and "Dir name listing \<in> set ds"
  shows "filter (\<lambda>l. tl_id l = name) (List.map_filter (list_of_dir js) ds)
           = (case list_of_dir js (Dir name listing) of None \<Rightarrow> [] | Some l \<Rightarrow> [l])"
  using assms
proof (induction ds)
  case Nil
  then show ?case by simp
next
  case (Cons d ds)
  show ?case
  proof (cases "d = Dir name listing")
    case True
    with Cons.prems have "name \<notin> dirent_name ` set ds" by auto
    from filter_map_filter_other [OF this, of js] True show ?thesis
    proof (cases "list_of_dir js d")
      case None
      with True \<open>filter (\<lambda>l. tl_id l = name) (List.map_filter (list_of_dir js) ds) = []\<close>
      show ?thesis by (simp add: List.map_filter_simps)
    next
      case (Some l)
      from list_of_dir_id [OF Some] True have "tl_id l = name" by simp
      with Some True \<open>filter (\<lambda>l. tl_id l = name) (List.map_filter (list_of_dir js) ds) = []\<close>
      show ?thesis by (simp add: List.map_filter_simps del: list_of_dir.simps)
    qed
  next
    case False
    with Cons.prems have in_ds: "Dir name listing \<in> set ds" and di: "distinct (map dirent_name ds)"
      by auto
    from in_ds have "name \<in> dirent_name ` set ds" by force
    with Cons.prems have ne: "dirent_name d \<noteq> name" by auto
    from Cons.IH [OF di in_ds] ne show ?thesis
      by (cases "list_of_dir js d") (auto simp: List.map_filter_simps dest: list_of_dir_id)
  qed
qed

lemma length_malformed_le:
  "length (filter (\<lambda>f. is_task_file f \<and> malformed f) files) \<le> length (filter is_task_file files)"
  by (induction files) auto

lemma length_scanned_tasks:
  "length (scanned_tasks files) =
     length (filter is_task_file files) - length (filter (\<lambda>f. is_task_file f \<and> malformed f) files)"
proof -
  have "length (scanned_tasks files) + length (filter (\<lambda>f. is_task_file f \<and> malformed f) files)
          = length (filter is_task_file files)"
    by (induction files) (auto simp: scanned_tasks_def)
  then show ?thesis by simp
qed

lemma scanned_tasks_empty_iff:
  "scanned_tasks files = [] \<longleftrightarrow>
     \<not> length (filter is_task_file files) > length (filter (\<lambda>f. is_task_file f \<and> malformed f) files)"
proof -
  have "scanned_tasks files = [] \<longleftrightarrow> length (scanned_tasks files) = 0" by simp
  also have "\<dots> \<longleftrightarrow> length (filter is_task_file files)
                 - length (filter (\<lambda>f. is_task_file f \<and> malformed f) files) = 0"
    by (simp only: length_scanned_tasks)
  also have "\<dots> \<longleftrightarrow> \<not> length (filter is_task_file files)
                 > length (filter (\<lambda>f. is_task_file f \<and> malformed f) files)"
    by arith
  finally show ?thesis .
qed

lemma list_of_dir_listed:
  assumes "name \<noteq> str ''.archive''" and "stat_ok files"
    and "\<not> sort_throws js (scanned_tasks files)"
  shows "\<exists>sorted. js_sort (task_cmp js) (scanned_tasks files) = Some sorted
           \<and> list_of_dir js (Dir name (Some files)) =
               (if scanned_tasks files = [] then None
                else Some \<lparr>tl_id = name, tl_tasks = sorted,
                           tl_lastModified = snd (the (scan_task_files files [] 0))\<rparr>)"
proof -
  from scan_task_files_Some [OF assms(2), of "[]" 0]
  obtain lm where sc: "scan_task_files files [] 0 = Some (scanned_tasks files, lm)" by auto
  from assms(3) obtain sorted where so: "js_sort (task_cmp js) (scanned_tasks files) = Some sorted"
    using sort_throws_iff [of js "scanned_tasks files"] by auto
  with assms(1) sc show ?thesis by simp
qed




section \<open>Properties of a pass\<close>

lemma sorted_by_recency:
  "sorted_wrt (\<lambda>a b. tl_lastModified a \<ge> tl_lastModified b)
     (sort_key (\<lambda>l. - tl_lastModified l) xs)"
proof -
  have "sorted (map (\<lambda>l. - tl_lastModified l) (sort_key (\<lambda>l. - tl_lastModified l) xs))"
    by simp
  then show ?thesis by (simp add: sorted_map)
qed

lemma getTaskLists_sorted:
  assumes "fst (getTaskLists js tdir cache) = Some tls"
  shows "sorted_wrt (\<lambda>a b. tl_lastModified a \<ge> tl_lastModified b) tls"
proof (cases tdir)
  case NoTasksDir
  with assms show ?thesis by (simp add: getTaskLists_def)
next
  case Unreadable
  with assms show ?thesis by (simp add: getTaskLists_def)
next
  case (Listing ds)
  with assms getTaskLists_Listing
  have "tls = sort_key (\<lambda>l. - tl_lastModified l) (List.map_filter (list_of_dir js) ds)"
    by blast
  then show ?thesis by (simp add: sorted_by_recency)
qed

lemma pass_throws_Unreadable: "\<not> pass_throws js tdir \<Longrightarrow> tdir \<noteq> Unreadable"
  by (cases tdir) auto

lemma getAllTaskListSummaries_None_iff: "getAllTaskListSummaries T tdir = None \<longleftrightarrow> tdir = Unreadable"
  by (cases tdir) (auto simp: getAllTaskListSummaries_eq)

text \<open>What a pass publishes.\<close>

lemma writeFiles_data_file:
  "data_file (writeFiles js T tdir write_ok st) =
     (if write_ok \<and> \<not> pass_throws js tdir then
        Some \<lparr>md_taskLists = the (fst (getTaskLists js tdir (taskDataCache st))),
              md_availableLists = the (getAllTaskListSummaries T tdir),
              md_selectedListId =
                (case the (fst (getTaskLists js tdir (taskDataCache st))) of
                   [] \<Rightarrow> [] | l # _ \<Rightarrow> tl_id l),
              md_templates = [],
              md_projectDir = projectDir (currentConfig st)\<rparr>
      else data_file st)"
proof -
  obtain r c where g: "getTaskLists js tdir (taskDataCache st) = (r, c)"
    by (cases "getTaskLists js tdir (taskDataCache st)")
  show ?thesis
  proof (cases "pass_throws js tdir")
    case True
    with getTaskLists_None_iff [of js tdir "taskDataCache st"] g have "r = None" by simp
    with g True show ?thesis by (simp add: writeFiles_def)
  next
    case False
    with getTaskLists_None_iff [of js tdir "taskDataCache st"] g obtain tls where r: "r = Some tls"
      by (cases r) auto
    from False obtain sms where s: "getAllTaskListSummaries T tdir = Some sms"
      using getAllTaskListSummaries_None_iff [of T tdir] pass_throws_Unreadable [of js tdir]
      by fastforce
    show ?thesis using False g r s
      by (cases tls) (simp_all add: writeFiles_def Let_def)
  qed
qed

lemma list_all2_insort_key:
  assumes "R x y" and "list_all2 R xs ys"
    and "\<And>a b. R a b \<Longrightarrow> k1 a = k2 b"
  shows "list_all2 R (insort_key k1 x xs) (insort_key (k2 :: 'b \<Rightarrow> 'k :: linorder) y ys)"
  using assms(2,1)
proof (induction xs ys rule: list_all2_induct)
  case Nil
  then show ?case by simp
next
  case (Cons a xs b ys)
  have "k1 x = k2 y" "k1 a = k2 b" using assms(3) Cons.prems Cons.hyps(1) by blast+
  with Cons show ?case by simp
qed

lemma list_all2_sort_key:
  assumes "list_all2 R xs ys"
    and "\<And>a b. R a b \<Longrightarrow> k1 a = k2 b"
  shows "list_all2 R (sort_key k1 xs) (sort_key (k2 :: 'b \<Rightarrow> 'k :: linorder) ys)"
  using assms(1)
proof (induction xs ys rule: list_all2_induct)
  case Nil
  then show ?case by simp
next
  case (Cons a xs b ys)
  then show ?case using list_all2_insort_key [of R a b _ _ k1 k2] assms(2) by simp
qed

lemma same_list_of_dir:
  assumes "\<not> dir_throws js d"
  shows "(list_of_dir js d = None \<and> summary_of_dir T d = None)
   \<or> (\<exists>l s. list_of_dir js d = Some l \<and> summary_of_dir T d = Some s \<and> same_list l s)"
proof (cases d)
  case (Other name)
  then show ?thesis by simp
next
  case (Dir name listing)
  show ?thesis
  proof (cases "name = str ''.archive''")
    case True
    with Dir show ?thesis by simp
  next
    case na: False
    show ?thesis
    proof (cases listing)
      case None
      with Dir na show ?thesis by simp
    next
      case (Some files)
      show ?thesis
      proof (cases files rule: scan_cases)
        case fails
        with Dir na Some show ?thesis by simp
      next
        case (scans lm)
        show ?thesis
        proof (cases "scanned_tasks files = []")
          case True
          with Dir na Some scans show ?thesis by simp
        next
          case False
          from assms Dir na Some scans have "\<not> sort_throws js (scanned_tasks files)" by simp
          then obtain sorted where so: "js_sort (task_cmp js) (scanned_tasks files) = Some sorted"
            using sort_throws_iff [of js "scanned_tasks files"] by auto
          from length_js_sort [OF so] Dir na Some scans False so show ?thesis
            by (simp add: same_list_def)
        qed
      qed
    qed
  qed
qed

lemma list_all2_map_filter_dirs:
  assumes "\<not> list_ex (dir_throws js) ds"
  shows "list_all2 same_list (List.map_filter (list_of_dir js) ds)
           (List.map_filter (summary_of_dir T) ds)"
  using assms
proof (induction ds)
  case Nil
  then show ?case by (simp add: List.map_filter_simps)
next
  case (Cons d ds)
  then have "\<not> dir_throws js d" and "\<not> list_ex (dir_throws js) ds" by simp_all
  with same_list_of_dir [of js d T] Cons.IH show ?case
    by (auto simp: List.map_filter_simps simp del: list_of_dir.simps summary_of_dir.simps)
qed

lemma same_list_key:
  "same_list a b \<Longrightarrow> - tl_lastModified a = - s_lastModified b"
  by (simp add: same_list_def)

lemma lists_and_summaries:
  assumes "fst (getTaskLists js tdir cache) = Some tls"
    and "getAllTaskListSummaries T tdir = Some sms"
  shows "list_all2 same_list tls sms"
proof (cases tdir)
  case NoTasksDir
  with assms show ?thesis by (simp add: getTaskLists_def getAllTaskListSummaries_def)
next
  case Unreadable
  with assms show ?thesis by (simp add: getTaskLists_def)
next
  case (Listing ds)
  from assms(1) Listing have nt: "\<not> list_ex (dir_throws js) ds"
    by (simp add: getTaskLists_fst split: if_splits)
  from assms(1) Listing
  have a: "tls = sort_key (\<lambda>l. - tl_lastModified l) (List.map_filter (list_of_dir js) ds)"
    using getTaskLists_Listing by blast
  from assms(2) Listing
  have b: "sms = sort_key (\<lambda>s. - s_lastModified s) (List.map_filter (summary_of_dir T) ds)"
    by (simp add: getAllTaskListSummaries_eq)
  show ?thesis unfolding a b
    by (rule list_all2_sort_key [OF list_all2_map_filter_dirs [OF nt]]) (rule same_list_key)
qed

lemma same_list_ids:
  "list_all2 same_list tls sms \<Longrightarrow> map tl_id tls = map s_id sms"
  by (induction tls sms rule: list_all2_induct) (auto simp: same_list_def)

lemma mset_filter_sort_key: "mset (filter P (sort_key k xs)) = mset (filter P xs)"
  by (metis mset_filter mset_sort)

lemma published_filter:
  assumes "distinct (map dirent_name ds)" and "Dir name (Some files) \<in> set ds"
    and "name \<noteq> str ''.archive''" and "stat_ok files"
    and "fst (getTaskLists js (Listing ds) cache) = Some tls"
  shows "if scanned_tasks files = [] then filter (\<lambda>l. tl_id l = name) tls = []
         else \<exists>sorted lm. js_sort (task_cmp js) (scanned_tasks files) = Some sorted
                \<and> filter (\<lambda>l. tl_id l = name) tls =
                    [\<lparr>tl_id = name, tl_tasks = sorted, tl_lastModified = lm\<rparr>]"
proof -
  let ?xs = "List.map_filter (list_of_dir js) ds"
  have tls: "tls = sort_key (\<lambda>l. - tl_lastModified l) ?xs"
    using getTaskLists_Listing [OF assms(5)] .
  from assms(5) have "\<not> list_ex (dir_throws js) ds"
    by (simp add: getTaskLists_fst split: if_splits)
  with assms(2) have "\<not> dir_throws js (Dir name (Some files))"
    by (auto simp: list_ex_iff)
  with assms(3,4) have nt: "\<not> sort_throws js (scanned_tasks files)" by simp
  from list_of_dir_listed [OF assms(3,4) nt] obtain sorted where
    so: "js_sort (task_cmp js) (scanned_tasks files) = Some sorted"
    and ld: "list_of_dir js (Dir name (Some files)) =
               (if scanned_tasks files = [] then None
                else Some \<lparr>tl_id = name, tl_tasks = sorted,
                           tl_lastModified = snd (the (scan_task_files files [] 0))\<rparr>)"
    by blast
  have f: "filter (\<lambda>l. tl_id l = name) ?xs
        = (case list_of_dir js (Dir name (Some files)) of None \<Rightarrow> [] | Some l \<Rightarrow> [l])"
    by (rule filter_map_filter_dir [OF assms(1,2)])
  have m: "mset (filter (\<lambda>l. tl_id l = name) tls) = mset (filter (\<lambda>l. tl_id l = name) ?xs)"
    unfolding tls by (rule mset_filter_sort_key)
  show ?thesis
  proof (cases "scanned_tasks files = []")
    case True
    with f m ld show ?thesis by simp
  next
    case False
    let ?l = "\<lparr>tl_id = name, tl_tasks = sorted,
                tl_lastModified = snd (the (scan_task_files files [] 0))\<rparr>"
    from False f ld have "filter (\<lambda>l. tl_id l = name) ?xs = [?l]" by simp
    with m have "mset (filter (\<lambda>l. tl_id l = name) tls) = {#?l#}" by simp
    then have "filter (\<lambda>l. tl_id l = name) tls = [?l]" by (simp only: mset_single_iff)
    with False so show ?thesis by auto
  qed
qed

section \<open>Properties of the Config Store\<close>

lemma check_projectDir_eq:
  assumes "get_prop input (str ''projectDir'') = Some v"
  shows "check_projectDir input c =
           (if valid_projectDir v then Inr (c\<lparr>projectDir := trim (the_str v)\<rparr>)
            else Inl (str ''projectDir must be a non-empty string''))"
  using assms by (cases v) (simp_all add: check_projectDir_def)

lemma check_pollInterval_eq:
  assumes "get_prop input (str ''pollInterval'') = Some v"
  shows "check_pollInterval js input c =
           (if valid_pollInterval js v
            then Some (Inr (c\<lparr>pollInterval := pollInterval (apply_update js input c)\<rparr>))
            else if Number js (Some v) = None then None
            else Some (Inl (str ''pollInterval must be a number between 500 and 60000'')))"
proof (cases "Number js (Some v)")
  case None
  with assms show ?thesis by (simp add: check_pollInterval_def valid_pollInterval_def)
next
  case (Some n)
  with assms show ?thesis
    by (cases n) (auto simp: check_pollInterval_def valid_pollInterval_def poll_ok_def
          apply_update_def)
qed

lemma check_agentNames_eq:
  assumes "get_prop input (str ''agentNames'') = Some v"
  shows "check_agentNames input c =
           (if valid_agentNames v
            then Inr (c\<lparr>agentNames := map (\<lambda>n. trim (the_str n)) (case v of JArr ns \<Rightarrow> ns | _ \<Rightarrow> [])\<rparr>)
            else Inl (if (\<exists>ns. v = JArr ns \<and> ns \<noteq> [])
                      then (str ''Each agent name must be a non-empty string'')
                      else (str ''agentNames must be a non-empty array of strings'')))"
  using assms by (cases v) (auto simp: check_agentNames_def)

lemma validateConfig_obj:
  "validateConfig js cur (JObj kvs) =
     (case (if map_of kvs (str ''projectDir'') \<noteq> None then check_projectDir (JObj kvs) cur else Inr cur) of
        Inl e \<Rightarrow> Some (Invalid e)
      | Inr c1 \<Rightarrow>
         (case (if map_of kvs (str ''pollInterval'') \<noteq> None
                then check_pollInterval js (JObj kvs) c1 else Some (Inr c1)) of
            None \<Rightarrow> None
          | Some (Inl e) \<Rightarrow> Some (Invalid e)
          | Some (Inr c2) \<Rightarrow>
             (case (if map_of kvs (str ''agentNames'') \<noteq> None
                    then check_agentNames (JObj kvs) c2 else Inr c2) of
                Inl e \<Rightarrow> Some (Invalid e)
              | Inr c3 \<Rightarrow> Some (Valid c3))))"
  by (simp only: validateConfig_def js_in.simps option.case)

lemma step_projectDir:
  "(if map_of kvs (str ''projectDir'') \<noteq> None then check_projectDir (JObj kvs) c else Inr c) =
     (if field_ok valid_projectDir (get_prop (JObj kvs) (str ''projectDir''))
      then Inr (c\<lparr>projectDir := projectDir (apply_update js (JObj kvs) c)\<rparr>)
      else Inl (str ''projectDir must be a non-empty string''))"
proof (cases "map_of kvs (str ''projectDir'')")
  case None
  then show ?thesis by (simp add: apply_update_def field_ok_def)
next
  case (Some v)
  then show ?thesis by (simp add: check_projectDir_eq apply_update_def field_ok_def)
qed

lemma step_pollInterval:
  "(if map_of kvs (str ''pollInterval'') \<noteq> None
    then check_pollInterval js (JObj kvs) c else Some (Inr c)) =
     (if field_ok (valid_pollInterval js) (get_prop (JObj kvs) (str ''pollInterval''))
      then Some (Inr (c\<lparr>pollInterval := pollInterval (apply_update js (JObj kvs) c)\<rparr>))
      else if (case get_prop (JObj kvs) (str ''pollInterval'') of
                 None \<Rightarrow> False | Some v \<Rightarrow> Number js (Some v) = None)
      then None
      else Some (Inl (str ''pollInterval must be a number between 500 and 60000'')))"
proof (cases "map_of kvs (str ''pollInterval'')")
  case None
  then show ?thesis by (simp add: apply_update_def field_ok_def)
next
  case (Some v)
  then show ?thesis by (simp add: check_pollInterval_eq field_ok_def)
qed

lemma step_agentNames:
  "(if map_of kvs (str ''agentNames'') \<noteq> None then check_agentNames (JObj kvs) c else Inr c) =
     (if field_ok valid_agentNames (get_prop (JObj kvs) (str ''agentNames''))
      then Inr (c\<lparr>agentNames := agentNames (apply_update js (JObj kvs) c)\<rparr>)
      else Inl (if (\<exists>ns. map_of kvs (str ''agentNames'') = Some (JArr ns) \<and> ns \<noteq> [])
                then str ''Each agent name must be a non-empty string''
                else str ''agentNames must be a non-empty array of strings''))"
proof (cases "map_of kvs (str ''agentNames'')")
  case None
  then show ?thesis by (simp add: apply_update_def field_ok_def)
next
  case (Some v)
  then show ?thesis
    by (cases v) (simp_all add: check_agentNames_eq apply_update_def field_ok_def)
qed

lemma validateConfig_valid:
  assumes "update_valid js (JObj kvs)"
  shows "validateConfig js cur (JObj kvs) = Some (Valid (apply_update js (JObj kvs) cur))"
proof -
  from assms have ok:
    "field_ok valid_projectDir (get_prop (JObj kvs) (str ''projectDir''))"
    "field_ok (valid_pollInterval js) (get_prop (JObj kvs) (str ''pollInterval''))"
    "field_ok valid_agentNames (get_prop (JObj kvs) (str ''agentNames''))"
    by (simp_all add: update_valid_def)
  have "validateConfig js cur (JObj kvs) =
      Some (Valid (cur\<lparr>projectDir := projectDir (apply_update js (JObj kvs) cur),
         pollInterval := pollInterval (apply_update js (JObj kvs)
            (cur\<lparr>projectDir := projectDir (apply_update js (JObj kvs) cur)\<rparr>)),
         agentNames := agentNames (apply_update js (JObj kvs)
            (cur\<lparr>projectDir := projectDir (apply_update js (JObj kvs) cur),
              pollInterval := pollInterval (apply_update js (JObj kvs)
            (cur\<lparr>projectDir := projectDir (apply_update js (JObj kvs) cur)\<rparr>))\<rparr>))\<rparr>))"
    by (simp only: validateConfig_obj step_projectDir [of _ _ js] step_pollInterval
          step_agentNames [of _ _ js] ok if_True sum.case option.case)
  also have "\<dots> = Some (Valid (apply_update js (JObj kvs) cur))"
    by (cases cur) (simp add: apply_update_def split: option.splits json.splits)
  finally show ?thesis .
qed

lemma validateConfig_throws:
  assumes "conversion_throws js (JObj kvs)"
  shows "validateConfig js cur (JObj kvs) = None"
proof -
  from assms have pd: "field_ok valid_projectDir (get_prop (JObj kvs) (str ''projectDir''))"
    and th: "(case get_prop (JObj kvs) (str ''pollInterval'') of
                 None \<Rightarrow> False | Some v \<Rightarrow> Number js (Some v) = None)"
    by (simp_all add: conversion_throws_def)
  from th have nv: "\<not> field_ok (valid_pollInterval js) (get_prop (JObj kvs) (str ''pollInterval''))"
    by (auto simp: field_ok_def valid_pollInterval_def split: option.splits)
  show ?thesis
    by (simp only: validateConfig_obj step_projectDir [of _ _ js] step_pollInterval
          pd nv th if_True if_False sum.case option.case)
qed

lemma conversion_throws_invalid: "conversion_throws js input \<Longrightarrow> \<not> update_valid js input"
  by (auto simp: conversion_throws_def update_valid_def field_ok_def valid_pollInterval_def
        split: option.splits)

lemma validateConfig_invalid:
  assumes "\<not> update_valid js (JObj kvs)" and "\<not> conversion_throws js (JObj kvs)"
  shows "\<exists>e. validateConfig js cur (JObj kvs) = Some (Invalid e)
             \<and> names_invalid_field js (JObj kvs) e"
proof (cases "field_ok valid_projectDir (get_prop (JObj kvs) (str ''projectDir''))")
  case False
  then have "validateConfig js cur (JObj kvs) = Some (Invalid (str ''projectDir must be a non-empty string''))"
    by (simp only: validateConfig_obj step_projectDir [of _ _ js] if_False sum.case)
  with False show ?thesis by (simp add: names_invalid_field_def)
next
  case pdok: True
  with assms(2) have nth: "\<not> (case get_prop (JObj kvs) (str ''pollInterval'') of
                 None \<Rightarrow> False | Some v \<Rightarrow> Number js (Some v) = None)"
    by (simp add: conversion_throws_def)
  show ?thesis
  proof (cases "field_ok (valid_pollInterval js) (get_prop (JObj kvs) (str ''pollInterval''))")
    case False
    with pdok nth have "validateConfig js cur (JObj kvs) =
        Some (Invalid (str ''pollInterval must be a number between 500 and 60000''))"
      by (simp only: validateConfig_obj step_projectDir [of _ _ js] step_pollInterval
            if_True if_False sum.case option.case)
    with False show ?thesis by (simp add: names_invalid_field_def)
  next
    case piok: True
    from assms pdok piok have bad: "\<not> field_ok valid_agentNames (get_prop (JObj kvs) (str ''agentNames''))"
      by (simp add: update_valid_def)
    with pdok piok have "validateConfig js cur (JObj kvs) =
        Some (Invalid (if (\<exists>ns. map_of kvs (str ''agentNames'') = Some (JArr ns) \<and> ns \<noteq> [])
                then str ''Each agent name must be a non-empty string''
                else str ''agentNames must be a non-empty array of strings''))"
      by (simp only: validateConfig_obj step_projectDir [of _ _ js] step_pollInterval
            step_agentNames [of _ _ js] if_True if_False sum.case option.case)
    with bad show ?thesis by (auto simp: names_invalid_field_def)
  qed
qed

lemma validateConfig_array: "validateConfig js cur (JArr xs) = Some (Valid cur)"
  by (simp add: validateConfig_def)

lemma validateConfig_primitive:
  "(\<forall>kvs. input \<noteq> JObj kvs) \<Longrightarrow> (\<forall>xs. input \<noteq> JArr xs) \<Longrightarrow> validateConfig js cur input = None"
  by (cases input) (simp_all add: validateConfig_def)

lemma validateConfig_Valid_cases:
  assumes "validateConfig js cur input = Some (Valid c)"
  shows "(\<exists>xs. input = JArr xs \<and> c = cur)
       \<or> (\<exists>kvs. input = JObj kvs \<and> update_valid js input \<and> c = apply_update js input cur)"
proof (cases input)
  case (JObj kvs)
  show ?thesis
  proof (cases "update_valid js input")
    case True
    with assms JObj show ?thesis by (simp add: validateConfig_valid)
  next
    case False
    show ?thesis
    proof (cases "conversion_throws js input")
      case True
      with validateConfig_throws [of js kvs cur] assms JObj show ?thesis by simp
    next
      case nt: False
      with False validateConfig_invalid [of js kvs cur] assms JObj show ?thesis by auto
    qed
  qed
next
  case (JArr xs)
  with assms show ?thesis by (simp add: validateConfig_array)
qed (use assms in \<open>simp_all add: validateConfig_def\<close>)

lemma loadConfig_saved:
  "loadConfig cwd (ConfigFile (Parsed (config_json c))) =
     \<lparr>projectDir = (if projectDir c \<noteq> [] then projectDir c else cwd),
      pollInterval = (if poll_ok (pollInterval c) then pollInterval c else 2000),
      agentNames = (if agentNames c \<noteq> [] \<and> [] \<notin> set (agentNames c) then agentNames c
                    else agentNames (DEFAULT_CONFIG cwd))\<rparr>"
proof -
  have a: "list_all nonempty_string (map JStr ns) \<longleftrightarrow> [] \<notin> set ns" for ns
    by (induction ns) auto
  have b: "map (the_str \<circ> JStr) ns = ns" for ns
    by (induction ns) auto
  show ?thesis
    by (simp add: loadConfig_def config_json_def a b poll_ok_def DEFAULT_CONFIG_def)
qed

lemma nonblank_names:
  "list_all nonblank_string (map JStr ns) \<Longrightarrow> [] \<notin> set ns"
  by (induction ns) (auto simp: trim_def)

lemma config_json_valid:
  assumes "update_valid js (config_json c)"
  shows "projectDir c \<noteq> []" "poll_ok (pollInterval c)" "agentNames c \<noteq> []" "[] \<notin> set (agentNames c)"
proof -
  from assms have v: "valid_projectDir (JStr (projectDir c))"
    "valid_pollInterval js (JNum (pollInterval c))"
    "valid_agentNames (JArr (map JStr (agentNames c)))"
    by (simp_all add: update_valid_def config_json_def field_ok_def)
  from v(1) show "projectDir c \<noteq> []" by (auto dest: trim_nonempty)
  from v(2) show "poll_ok (pollInterval c)" by (simp add: valid_pollInterval_def)
  from v(3) show "agentNames c \<noteq> []" by simp
  from v(3) show "[] \<notin> set (agentNames c)" by (simp add: nonblank_names)
qed

lemma round_trip_iff:
  "loadConfig cwd (config_file (saveConfig c st)) = c \<longleftrightarrow>
     (projectDir c \<noteq> [] \<or> projectDir c = cwd)
     \<and> (poll_ok (pollInterval c) \<or> pollInterval c = 2000)
     \<and> ((agentNames c \<noteq> [] \<and> [] \<notin> set (agentNames c))
          \<or> agentNames c = agentNames (DEFAULT_CONFIG cwd))"
  by (cases c) (auto simp: saveConfig_def loadConfig_saved)

lemma apply_update_fields:
  assumes "update_valid js input"
  shows "get_prop input (str ''projectDir'') = None \<or> projectDir (apply_update js input cur) \<noteq> []"
    and "get_prop input (str ''pollInterval'') = None \<or> poll_ok (pollInterval (apply_update js input cur))"
    and "get_prop input (str ''agentNames'') = None
         \<or> (agentNames (apply_update js input cur) \<noteq> []
             \<and> [] \<notin> set (agentNames (apply_update js input cur)))"
proof -
  show "get_prop input (str ''projectDir'') = None \<or> projectDir (apply_update js input cur) \<noteq> []"
  proof (cases "get_prop input (str ''projectDir'')")
    case (Some v)
    with assms have "valid_projectDir v" by (simp add: update_valid_def field_ok_def)
    with Some show ?thesis by (cases v) (simp_all add: apply_update_def)
  qed simp
  show "get_prop input (str ''pollInterval'') = None \<or> poll_ok (pollInterval (apply_update js input cur))"
  proof (cases "get_prop input (str ''pollInterval'')")
    case (Some v)
    with assms have "valid_pollInterval js v" by (simp add: update_valid_def field_ok_def)
    with Some show ?thesis
      by (auto simp: apply_update_def valid_pollInterval_def split: option.splits jsnum.splits)
  qed simp
  show "get_prop input (str ''agentNames'') = None
         \<or> (agentNames (apply_update js input cur) \<noteq> []
             \<and> [] \<notin> set (agentNames (apply_update js input cur)))"
  proof (cases "get_prop input (str ''agentNames'')")
    case (Some v)
    with assms have v: "valid_agentNames v" by (simp add: update_valid_def field_ok_def)
    then obtain ns where ns: "v = JArr ns" "ns \<noteq> []" "list_all nonblank_string ns"
      by (cases v) auto
    have "[] \<notin> set (map (\<lambda>n. trim (the_str n)) ns)"
    proof
      assume "[] \<in> set (map (\<lambda>n. trim (the_str n)) ns)"
      then obtain n where n: "n \<in> set ns" "trim (the_str n) = []" by auto
      with ns(3) have "nonblank_string n" by (simp add: list_all_iff)
      with n(2) show False by (cases n) auto
    qed
    with Some ns show ?thesis by (simp add: apply_update_def)
  qed simp
qed

lemma apply_update_absent:
  "get_prop input (str ''projectDir'') = None \<Longrightarrow> projectDir (apply_update js input cur) = projectDir cur"
  "get_prop input (str ''pollInterval'') = None \<Longrightarrow> pollInterval (apply_update js input cur) = pollInterval cur"
  "get_prop input (str ''agentNames'') = None \<Longrightarrow> agentNames (apply_update js input cur) = agentNames cur"
  by (simp_all add: apply_update_def)

lemma round_trip_update:
  assumes "update_valid js input"
    and "loadConfig cwd (config_file (saveConfig cur st)) = cur"
  shows "loadConfig cwd (config_file (saveConfig (apply_update js input cur) st)) =
           apply_update js input cur"
proof -
  let ?c = "apply_update js input cur"
  from assms(2) have cur:
    "projectDir cur \<noteq> [] \<or> projectDir cur = cwd"
    "poll_ok (pollInterval cur) \<or> pollInterval cur = 2000"
    "(agentNames cur \<noteq> [] \<and> [] \<notin> set (agentNames cur))
        \<or> agentNames cur = agentNames (DEFAULT_CONFIG cwd)"
    by (simp_all add: round_trip_iff)
  have 1: "projectDir ?c \<noteq> [] \<or> projectDir ?c = cwd"
    using apply_update_fields(1) [OF assms(1), of cur] apply_update_absent(1) [of input js cur] cur(1)
    by auto
  have 2: "poll_ok (pollInterval ?c) \<or> pollInterval ?c = 2000"
    using apply_update_fields(2) [OF assms(1), of cur] apply_update_absent(2) [of input js cur] cur(2)
    by auto
  have 3: "(agentNames ?c \<noteq> [] \<and> [] \<notin> set (agentNames ?c))
        \<or> agentNames ?c = agentNames (DEFAULT_CONFIG cwd)"
    using apply_update_fields(3) [OF assms(1), of cur] apply_update_absent(3) [of input js cur] cur(3)
    by auto
  from 1 2 3 show ?thesis by (simp only: round_trip_iff)
qed

lemma loadConfig_fields:
  "projectDir (loadConfig cwd cf) \<noteq> [] \<or> projectDir (loadConfig cwd cf) = cwd"
  "poll_ok (pollInterval (loadConfig cwd cf))"
  "(agentNames (loadConfig cwd cf) \<noteq> [] \<and> [] \<notin> set (agentNames (loadConfig cwd cf)))"
proof -
  have d: "poll_ok (pollInterval (DEFAULT_CONFIG cwd))"
    "agentNames (DEFAULT_CONFIG cwd) \<noteq> [] \<and> [] \<notin> set (agentNames (DEFAULT_CONFIG cwd))"
    "projectDir (DEFAULT_CONFIG cwd) = cwd"
    by (simp_all add: DEFAULT_CONFIG_def poll_ok_def)
  have ns: "list_all nonempty_string ns \<Longrightarrow> [] \<notin> set (map the_str ns)" for ns
  proof (induction ns)
    case (Cons n ns)
    then show ?case by (cases n) auto
  qed simp
  consider (default) "loadConfig cwd cf = DEFAULT_CONFIG cwd"
    | (parsed) p where "cf = ConfigFile (Parsed p)" "p \<noteq> JNull"
  proof (cases cf)
    case NoConfigFile
    then show ?thesis using default by (simp add: loadConfig_def)
  next
    case (ConfigFile r)
    show ?thesis
    proof (cases r)
      case (Parsed p)
      with ConfigFile show ?thesis using default parsed by (cases p) (auto simp: loadConfig_def)
    qed (use ConfigFile default in \<open>simp_all add: loadConfig_def\<close>)
  qed
  note cs = this
  show "projectDir (loadConfig cwd cf) \<noteq> [] \<or> projectDir (loadConfig cwd cf) = cwd"
  proof (cases rule: cs)
    case default
    with d show ?thesis by simp
  next
    case (parsed p)
    then show ?thesis
      by (cases p) (auto simp: loadConfig_def d split: option.splits json.splits)
  qed
  show "poll_ok (pollInterval (loadConfig cwd cf))"
  proof (cases rule: cs)
    case default
    with d show ?thesis by simp
  next
    case (parsed p)
    then show ?thesis using d(1)
      by (cases p) (auto simp: loadConfig_def poll_ok_def split: option.splits json.splits)
  qed
  show "agentNames (loadConfig cwd cf) \<noteq> [] \<and> [] \<notin> set (agentNames (loadConfig cwd cf))"
  proof (cases rule: cs)
    case default
    with d show ?thesis by simp
  next
    case (parsed p)
    then show ?thesis using d(2) ns
      by (cases p) (auto simp: loadConfig_def split: option.splits json.splits)
  qed
qed

lemma loadConfig_pollInterval:
  "pollInterval (loadConfig cwd cf) =
     (case cf of
        ConfigFile (Parsed p) \<Rightarrow>
          (case get_prop p (str ''pollInterval'') of
             Some (JNum n) \<Rightarrow> if poll_ok n then n else 2000
           | _ \<Rightarrow> 2000)
      | _ \<Rightarrow> 2000)"
proof (cases cf)
  case NoConfigFile
  then show ?thesis by (simp add: loadConfig_def DEFAULT_CONFIG_def)
next
  case (ConfigFile r)
  show ?thesis
  proof (cases r)
    case (Parsed p)
    with ConfigFile show ?thesis
      by (cases p) (auto simp: loadConfig_def DEFAULT_CONFIG_def poll_ok_def
            split: option.splits json.splits)
  qed (use ConfigFile in \<open>simp_all add: loadConfig_def DEFAULT_CONFIG_def\<close>)
qed

lemma post_config_object:
  "post_config js write_ok now (Some (JObj kvs)) st =
     (if update_valid js (JObj kvs) then
        (if write_ok then
          (st\<lparr>currentConfig := apply_update js (JObj kvs) (currentConfig st),
              config_file := ConfigFile (Parsed (config_json
                  (apply_update js (JObj kvs) (currentConfig st)))),
              writeDebounceTimer := Some (now + 300)\<rparr>,
           Response 200 (config_json (apply_update js (JObj kvs) (currentConfig st))))
         else (st\<lparr>currentConfig := apply_update js (JObj kvs) (currentConfig st)\<rparr>,
               Response 400 (error_body (str ''Invalid JSON''))))
      else if conversion_throws js (JObj kvs)
      then (st, Response 400 (error_body (str ''Invalid JSON'')))
      else (st, Response 400 (error_body
              (case validateConfig js (currentConfig st) (JObj kvs) of
                 Some (Invalid e) \<Rightarrow> e | _ \<Rightarrow> []))))"
proof (cases "update_valid js (JObj kvs)")
  case True
  then show ?thesis
    by (simp add: post_config_def validateConfig_valid saveConfig_def scheduleWriteFiles_def Let_def)
next
  case False
  show ?thesis
  proof (cases "conversion_throws js (JObj kvs)")
    case True
    with False validateConfig_throws [OF True, of "currentConfig st"] show ?thesis
      by (simp add: post_config_def)
  next
    case nt: False
    from validateConfig_invalid [OF False nt, of "currentConfig st"] obtain e where
      "validateConfig js (currentConfig st) (JObj kvs) = Some (Invalid e)" by blast
    with False nt show ?thesis by (simp add: post_config_def)
  qed
qed

lemma post_config_currentConfig:
  "currentConfig (fst (post_config js write_ok now body st)) = currentConfig st
   \<or> (\<exists>input c. body = Some input \<and> validateConfig js (currentConfig st) input = Some (Valid c)
        \<and> currentConfig (fst (post_config js write_ok now body st)) = c)"
  by (auto simp: post_config_def saveConfig_def scheduleWriteFiles_def Let_def
        split: option.splits validation.splits)

lemma validated_pollInterval:
  assumes "validateConfig js cur input = Some (Valid c)" and "poll_ok (pollInterval cur)"
  shows "poll_ok (pollInterval c)"
proof -
  from validateConfig_Valid_cases [OF assms(1)] show ?thesis
  proof
    assume "\<exists>xs. input = JArr xs \<and> c = cur"
    with assms(2) show ?thesis by auto
  next
    assume "\<exists>kvs. input = JObj kvs \<and> update_valid js input \<and> c = apply_update js input cur"
    then have v: "update_valid js input" and c: "c = apply_update js input cur" by auto
    from apply_update_fields(2) [OF v, of cur] apply_update_absent(2) [of input js cur] assms(2) c
    show ?thesis by auto
  qed
qed

lemma half_not_int: "(1001 / 2 :: rat) \<notin> \<int>"
proof
  assume "(1001 / 2 :: rat) \<in> \<int>"
  then obtain k :: int where "(1001 / 2 :: rat) = of_int k" by (auto elim: Ints_cases)
  then have "(1001 :: rat) = of_int (2 * k)" by simp
  then have "(1001 :: int) = 2 * k" by (metis of_int_eq_numeral_iff of_int_numeral of_int_eq_iff)
  then show False by presburger
qed

section \<open>Properties of the scheduler\<close>

lemma writeFiles_passes [simp]:
  "passes (writeFiles js T tdir write_ok st) = passes st + 1"
  by (simp add: writeFiles_def Let_def split: option.splits prod.splits)

lemma writeFiles_timer [simp]:
  "writeDebounceTimer (writeFiles js T tdir write_ok st) = writeDebounceTimer st"
  by (simp add: writeFiles_def Let_def split: option.splits prod.splits)

lemma writeFiles_currentConfig [simp]:
  "currentConfig (writeFiles js T tdir write_ok st) = currentConfig st"
  by (simp add: writeFiles_def Let_def split: option.splits prod.splits)

lemma run_timers_due:
  "writeDebounceTimer st = Some due \<Longrightarrow> due \<le> now \<Longrightarrow>
     run_timers js T tdir write_ok now st
       = writeFiles js T tdir write_ok (st\<lparr>writeDebounceTimer := None\<rparr>)"
  by (simp add: run_timers_def timer_callback_def)

lemma run_timers_not_due:
  "writeDebounceTimer st = Some due \<Longrightarrow> now < due \<Longrightarrow>
     run_timers js T tdir write_ok now st = st"
  by (simp add: run_timers_def)

lemma run_timers_idle:
  "writeDebounceTimer st = None \<Longrightarrow> run_timers js T tdir write_ok now st = st"
  by (simp add: run_timers_def)

text \<open>The handler of an event that requests a regeneration sets the timer 300 ms ahead
  and runs no pass itself.\<close>

lemma post_config_accepted:
  assumes "accepted_body js body"
  shows "writeDebounceTimer (fst (post_config js True t body st)) = Some (t + 300)"
    and "passes (fst (post_config js True t body st)) = passes st"
proof -
  from assms consider (obj) kvs where "body = Some (JObj kvs)" "update_valid js (JObj kvs)"
    | (arr) xs where "body = Some (JArr xs)"
    by (cases "(js, body)" rule: accepted_body.cases) auto
  then have "writeDebounceTimer (fst (post_config js True t body st)) = Some (t + 300)
      \<and> passes (fst (post_config js True t body st)) = passes st"
  proof cases
    case obj
    then show ?thesis by (simp add: post_config_object)
  next
    case arr
    then show ?thesis
      by (simp add: post_config_def validateConfig_array saveConfig_def scheduleWriteFiles_def)
  qed
  then show "writeDebounceTimer (fst (post_config js True t body st)) = Some (t + 300)"
    and "passes (fst (post_config js True t body st)) = passes st"
    by simp_all
qed

lemma handle_request:
  assumes "requests_regeneration js ev"
  shows "writeDebounceTimer (handle js cwd t ev st) = Some (t + 300)"
    and "passes (handle js cwd t ev st) = passes st"
proof -
  have "writeDebounceTimer (handle js cwd t ev st) = Some (t + 300)
      \<and> passes (handle js cwd t ev st) = passes st"
  proof (cases ev)
    case (FileAdded p)
    with assms show ?thesis by (simp add: on_add_def scheduleWriteFiles_def)
  next
    case (FileChanged p)
    with assms show ?thesis by (simp add: on_change_def scheduleWriteFiles_def)
  next
    case (FileRemoved p ok t1 t2)
    with assms show ?thesis
      by (simp add: on_unlink_def archiveTaskList_def scheduleWriteFiles_def Let_def
            split: option.splits)
  next
    case (ConfigFileEdited cf)
    then show ?thesis by (simp add: on_config_change_def scheduleWriteFiles_def)
  next
    case (ConfigPosted body ok)
    with assms have "ok" "accepted_body js body" by simp_all
    with ConfigPosted post_config_accepted [of js body t st] show ?thesis by simp
  qed
  then show "writeDebounceTimer (handle js cwd t ev st) = Some (t + 300)"
    and "passes (handle js cwd t ev st) = passes st"
    by simp_all
qed

lemma events_append:
  "events js T cwd tree write_ok (xs @ ys) st
     = events js T cwd tree write_ok ys (events js T cwd tree write_ok xs st)"
  by (induction xs arbitrary: st) auto

lemma events_burst:
  assumes "es \<noteq> []" and "within_window (map fst es)"
    and "\<forall>e \<in> set es. requests_regeneration js (snd e)"
    and "writeDebounceTimer st = None \<or> (\<exists>due. writeDebounceTimer st = Some due \<and> fst (hd es) < due)"
  shows "passes (events js T cwd tree write_ok es st) = passes st
       \<and> writeDebounceTimer (events js T cwd tree write_ok es st) = Some (fst (last es) + 300)"
  using assms
proof (induction es arbitrary: st)
  case Nil
  then show ?case by simp
next
  case (Cons e es)
  obtain t ev where e: "e = (t, ev)" by (cases e)
  let ?st1 = "handle js cwd t ev (run_timers js T (tree t) write_ok t st)"
  from Cons.prems(4) e have rt: "run_timers js T (tree t) write_ok t st = st"
    by (auto simp: run_timers_idle run_timers_not_due)
  from Cons.prems(3) e have rq: "requests_regeneration js ev" by simp
  from handle_request [OF rq, of cwd t st]
  have p1: "passes ?st1 = passes st" and t1: "writeDebounceTimer ?st1 = Some (t + 300)"
    by (simp_all add: rt)
  show ?case
  proof (cases es)
    case Nil
    with p1 t1 e show ?thesis by simp
  next
    case (Cons e' es')
    with Cons.prems(2) e have w: "within_window (map fst es)" and u: "fst (hd es) < t + 300"
      by simp_all
    from Cons have ne: "es \<noteq> []" by simp
    from Cons.prems(3) have rs: "\<forall>e \<in> set es. requests_regeneration js (snd e)" by simp
    from Cons.IH [OF ne w rs, of ?st1] t1 u p1 ne e show ?thesis by simp
  qed
qed

lemma main_currentConfig:
  "currentConfig (main js T cwd tdir write_ok cf) = loadConfig cwd cf"
  by (simp add: main_def Let_def saveConfig_def)

lemma on_config_change_currentConfig:
  "currentConfig (on_config_change cwd now st) = loadConfig cwd (config_file st)"
  by (simp add: on_config_change_def scheduleWriteFiles_def)

section \<open>Properties of the unlink handler\<close>

lemma on_unlink_ignored: "ignored_path p \<Longrightarrow> on_unlink js ok t1 t2 now p st = st"
  by (simp add: on_unlink_def)

lemma on_unlink_archives:
  assumes "\<not> ignored_path p"
    and "taskDataCache st (basename (dirname p)) = Some (tasks, lm)"
    and "tasks \<noteq> []"
  shows "on_unlink js ok t1 t2 now p st =
     st\<lparr>archive_dir :=
          (if ok then (archive_dir st)
             (archive_name js t1 (basename (dirname p)) \<mapsto>
                \<lparr>a_id = basename (dirname p), a_archivedAt = toISOString js t2,
                  a_tasks = tasks\<rparr>)
           else archive_dir st),
        taskDataCache := (taskDataCache st)(basename (dirname p) := None),
        writeDebounceTimer := Some (now + 300)\<rparr>"
  using assms
  by (simp add: on_unlink_def archiveTaskList_def scheduleWriteFiles_def Let_def)

lemma on_unlink_no_entry:
  assumes "taskDataCache st (basename (dirname p)) = None"
  shows "archive_dir (on_unlink js ok t1 t2 now p st) = archive_dir st"
  using assms by (simp add: on_unlink_def scheduleWriteFiles_def Let_def)

text \<open>What the next pass publishes of a given directory.\<close>

lemma no_list_without_tasks:
  assumes "\<not> pass_throws js tdir"
    and "\<forall>ds files. tdir = Listing ds \<and> Dir listId (Some files) \<in> set ds \<longrightarrow> scanned_tasks files = []"
  shows "\<exists>d. data_file (writeFiles js T tdir True st) = Some d
           \<and> listId \<notin> tl_id ` set (md_taskLists d) \<and> listId \<notin> s_id ` set (md_availableLists d)"
proof -
  from assms(1) obtain tls where g: "fst (getTaskLists js tdir (taskDataCache st)) = Some tls"
    using getTaskLists_None_iff [of js tdir "taskDataCache st"] by fastforce
  from assms(1) obtain sms where s: "getAllTaskListSummaries T tdir = Some sms"
    using getAllTaskListSummaries_None_iff [of T tdir] pass_throws_Unreadable [of js tdir]
    by fastforce
  have a: "listId \<notin> tl_id ` set tls"
  proof
    assume "listId \<in> tl_id ` set tls"
    then obtain l where l: "l \<in> set tls" "tl_id l = listId" by auto
    from published_list [OF g l(1)] l(2) assms(2) show False by blast
  qed
  have "map tl_id tls = map s_id sms"
    by (rule same_list_ids [OF lists_and_summaries [OF g s]])
  then have "tl_id ` set tls = s_id ` set sms" by (metis set_map)
  with a have b: "listId \<notin> s_id ` set sms" by simp
  from a b g s assms(1) show ?thesis by (simp add: writeFiles_data_file)
qed

lemma list_with_tasks:
  assumes "\<not> pass_throws js (Listing ds)"
    and "distinct (map dirent_name ds)" and "Dir listId (Some files) \<in> set ds"
    and "listId \<noteq> str ''.archive''" and "stat_ok files" and "scanned_tasks files \<noteq> []"
  shows "\<exists>d l. data_file (writeFiles js T (Listing ds) True st) = Some d
           \<and> filter (\<lambda>l. tl_id l = listId) (md_taskLists d) = [l]
           \<and> mset (tl_tasks l) = mset (scanned_tasks files)"
proof -
  from assms(1) obtain tls where
    g: "fst (getTaskLists js (Listing ds) (taskDataCache st)) = Some tls"
    using getTaskLists_None_iff [of js "Listing ds" "taskDataCache st"] by fastforce
  from published_filter [OF assms(2-5) g] assms(6) obtain sorted lm where
    so: "js_sort (task_cmp js) (scanned_tasks files) = Some sorted"
    and f: "filter (\<lambda>l. tl_id l = listId) tls =
              [\<lparr>tl_id = listId, tl_tasks = sorted, tl_lastModified = lm\<rparr>]"
    by auto
  from mset_js_sort [OF so] f g assms(1) show ?thesis
    by (simp add: writeFiles_data_file)
qed

section \<open>Order of the tasks of a list\<close>

text \<open>
  C5 (as amended). Let \<open>l\<close> be a list returned by \<^verbatim>\<open>getTaskLists\<close> in which no id parses
  to NaN. Then \<open>l\<close> comes from a listed directory of the same name, its tasks are the tasks
  scanned there, they are in ascending order of the number that \<^verbatim>\<open>parseInt\<close> makes of
  their ids (a double: ids that differ beyond its precision count as equal), and the tasks
  of any one such number (duplicates among them) are in the order in which the scan met
  them.
\<close>

theorem tasks_sorted_by_numeric_id:
  assumes "fst (getTaskLists js tdir cache) = Some taskLists"
    and "l \<in> set taskLists"
    and "\<forall>t \<in> set (tl_tasks l). task_num js t \<noteq> Some NaN"
  shows "\<exists>ds files. tdir = Listing ds \<and> Dir (tl_id l) (Some files) \<in> set ds
           \<and> mset (tl_tasks l) = mset (scanned_tasks files)
           \<and> sorted_wrt (id_le js) (tl_tasks l)
           \<and> (\<forall>k. filter (\<lambda>t. task_num js t = Some k) (tl_tasks l)
                  = filter (\<lambda>t. task_num js t = Some k) (scanned_tasks files))"
proof -
  from published_list [OF assms(1,2)] obtain ds files where
    t: "tdir = Listing ds" and d: "Dir (tl_id l) (Some files) \<in> set ds"
    and s: "js_sort (task_cmp js) (scanned_tasks files) = Some (tl_tasks l)"
    by blast
  let ?sc = "scanned_tasks files"
  let ?key = "\<lambda>t. num_key (the (task_num js t))"
  have m: "mset (tl_tasks l) = mset ?sc" using s by (rule mset_js_sort)
  have st: "set (tl_tasks l) = set ?sc" using s by (rule set_js_sort)
  have "sorted_wrt (id_le js) (tl_tasks l)
      \<and> (\<forall>k. filter (\<lambda>t. task_num js t = Some k) (tl_tasks l)
                  = filter (\<lambda>t. task_num js t = Some k) ?sc)"
  proof (cases "2 \<le> length ?sc")
    case False
    then consider "?sc = []" | x where "?sc = [x]"
      by (cases ?sc; cases "tl ?sc") auto
    then have "tl_tasks l = ?sc" using s by cases auto
    with False show ?thesis by (cases ?sc; cases "tl ?sc") auto
  next
    case True
    from s have "\<not> sort_throws js ?sc" by (simp flip: sort_throws_iff)
    with True have ok: "\<forall>t \<in> set ?sc. task_num js t \<noteq> None"
      by (simp add: sort_throws_def list_ex_iff)
    have num: "\<exists>v. task_num js t = Some v \<and> v \<noteq> NaN" if "t \<in> set ?sc" for t
      using that ok assms(3) st by (cases "task_num js t") auto
    have eq: "tl_tasks l = sort_key ?key ?sc"
    proof -
      have "js_sort (task_cmp js) ?sc = Some (sort_key ?key ?sc)"
      proof (rule js_sort_sort_key)
        fix x y assume "x \<in> set ?sc" "y \<in> set ?sc"
        with num obtain vx vy where
          v: "task_num js x = Some vx" "vx \<noteq> NaN" "task_num js y = Some vy" "vy \<noteq> NaN"
          by blast
        then show "\<exists>v. task_cmp js x y = Some v \<and> (cmp_le0 v \<longleftrightarrow> ?key x \<le> ?key y)"
          by (simp add: task_cmp_def cmp_le0_minus)
      qed
      with s show ?thesis by simp
    qed
    have "sorted (map ?key (tl_tasks l))" unfolding eq by simp
    then have "sorted_wrt (\<lambda>a b. ?key a \<le> ?key b) (tl_tasks l)" by (simp add: sorted_map)
    then have asc: "sorted_wrt (id_le js) (tl_tasks l)"
    proof (rule sorted_wrt_mono_rel [rotated])
      fix x y assume "x \<in> set (tl_tasks l)" "y \<in> set (tl_tasks l)" "?key x \<le> ?key y"
      with num st obtain vx vy where
        v: "task_num js x = Some vx" "vx \<noteq> NaN" "task_num js y = Some vy" "vy \<noteq> NaN"
        by blast
      with \<open>?key x \<le> ?key y\<close> show "id_le js x y" by (simp add: id_le_def num_le_key)
    qed
    have stab: "filter (\<lambda>t. task_num js t = Some k) (tl_tasks l)
              = filter (\<lambda>t. task_num js t = Some k) ?sc" for k
    proof -
      have a: "filter (\<lambda>t. ?key t = num_key k) (tl_tasks l) = filter (\<lambda>t. ?key t = num_key k) ?sc"
        unfolding eq by (rule sort_key_stable)
      have b: "filter (\<lambda>t. task_num js t = Some k) xs = filter (\<lambda>t. ?key t = num_key k) xs"
        if "set xs = set ?sc" and "k \<noteq> NaN" for xs
      proof (rule filter_cong [OF refl])
        fix t assume "t \<in> set xs"
        with that num obtain v where "task_num js t = Some v" "v \<noteq> NaN" by blast
        with that(2) show "(task_num js t = Some k) = (?key t = num_key k)"
          by (simp add: num_key_inj)
      qed
      have c: "filter (\<lambda>t. task_num js t = Some NaN) xs = []" if "set xs = set ?sc" for xs
      proof -
        have "task_num js t \<noteq> Some NaN" if "t \<in> set xs" for t
          using num [of t] that \<open>set xs = set ?sc\<close> by auto
        then show ?thesis by (simp add: filter_empty_conv)
      qed
      show ?thesis
      proof (cases "k = NaN")
        case True
        with c [OF st] c [OF refl] show ?thesis by simp
      next
        case False
        with a b [OF st] b [OF refl] show ?thesis by simp
      qed
    qed
    from asc stab show ?thesis by blast
  qed
  with t d m show ?thesis by blast
qed

theorem tasks_sorted_by_numeric_id_witness:
  "fst (getTaskLists fixed_engine (Listing [Dir (str ''proj'') (Some ids_numeric_files)]) Map.empty)
     = Some [\<lparr>tl_id = str ''proj'',
              tl_tasks = [mk_task ''1'' ''pending'', mk_task ''2'' ''pending'',
                          mk_task ''2'' ''in_progress'', mk_task ''10'' ''completed''],
              tl_lastModified = 40\<rparr>]
   \<and> map (task_num fixed_engine)
        [mk_task ''1'' ''pending'', mk_task ''2'' ''pending'',
         mk_task ''2'' ''in_progress'', mk_task ''10'' ''completed'']
      = [Some (Num 1), Some (Num 2), Some (Num 2), Some (Num 10)]
   \<and> filter (\<lambda>t. task_num fixed_engine t = Some (Num 2))
        [mk_task ''1'' ''pending'', mk_task ''2'' ''pending'',
         mk_task ''2'' ''in_progress'', mk_task ''10'' ''completed'']
      = filter (\<lambda>t. task_num fixed_engine t = Some (Num 2)) (scanned_tasks ids_numeric_files)
   \<and> sorted_wrt (id_le fixed_engine)
        [mk_task ''1'' ''pending'', mk_task ''2'' ''pending'',
         mk_task ''2'' ''in_progress'', mk_task ''10'' ''completed'']"
proof -
  let ?ts = "[mk_task ''1'' ''pending'', mk_task ''2'' ''pending'',
                          mk_task ''2'' ''in_progress'', mk_task ''10'' ''completed'']"
  let ?l = "\<lparr>tl_id = str ''proj'', tl_tasks = ?ts, tl_lastModified = 40\<rparr>"
  have h1: "fst (getTaskLists fixed_engine
        (Listing [Dir (str ''proj'') (Some ids_numeric_files)]) Map.empty) = Some [?l]"
    by code_simp
  have h2: "?l \<in> set [?l]" by simp
  have h3': "map (task_num fixed_engine) ?ts = [Some (Num 1), Some (Num 2), Some (Num 2), Some (Num 10)]"
    by code_simp
  have h3: "\<forall>t \<in> set (tl_tasks ?l). task_num fixed_engine t \<noteq> Some NaN"
    using h3' by auto
  from tasks_sorted_by_numeric_id [OF h1 h2 h3] obtain files where
    f: "Dir (str ''proj'') (Some files) \<in> set [Dir (str ''proj'') (Some ids_numeric_files)]"
    and so: "sorted_wrt (id_le fixed_engine) (tl_tasks ?l)"
    and st: "\<forall>k. filter (\<lambda>t. task_num fixed_engine t = Some k) (tl_tasks ?l)
         = filter (\<lambda>t. task_num fixed_engine t = Some k) (scanned_tasks files)"
    by auto
  from f have "files = ids_numeric_files" by simp
  with st have "filter (\<lambda>t. task_num fixed_engine t = Some (Num 2)) ?ts
         = filter (\<lambda>t. task_num fixed_engine t = Some (Num 2)) (scanned_tasks ids_numeric_files)"
    by simp
  with h1 h3' so show ?thesis by simp
qed

text \<open>The numbers compared are doubles, and white space before the digits is skipped.
  With the ids \<open>9007199254740993\<close>, \<open>9007199254740992\<close> and 7 after a no-break space, in
  scan order, the first two are read as the same number and keep their order, after the
  third.\<close>

lemma large_ids_example:
  "map tl_tasks (the (fst (getTaskLists fixed_engine
        (Listing [Dir (str ''proj'') (Some ids_large_files)]) Map.empty)))
     = [[JObj [(str ''id'', JStr (0xA0 # str ''7''))],
         mk_task ''9007199254740993'' ''pending'',
         mk_task ''9007199254740992'' ''completed'']]
   \<and> map (task_num fixed_engine) (scanned_tasks ids_large_files)
     = [Some (Num 9007199254740992), Some (Num 9007199254740992), Some (Num 7)]"
  by code_simp

text \<open>The claim as stated fails when an id does not parse: the comparator then returns
  NaN, which the sort takes for 0. With ids \<open>3, x, 1\<close> in scan order the list is returned
  unchanged, id 3 before id 1.\<close>

theorem tasks_sorted_counterexample:
  "fst (getTaskLists fixed_engine (Listing [Dir (str ''proj'') (Some ids_mixed_files)]) Map.empty)
     = Some [\<lparr>tl_id = str ''proj'',
              tl_tasks = [mk_task ''3'' ''pending'', mk_task ''x'' ''pending'',
                          mk_task ''1'' ''pending''],
              tl_lastModified = 30\<rparr>]
   \<and> task_num fixed_engine (mk_task ''3'' ''pending'') = Some (Num 3)
   \<and> task_num fixed_engine (mk_task ''x'' ''pending'') = Some NaN
   \<and> task_num fixed_engine (mk_task ''1'' ''pending'') = Some (Num 1)"
  by code_simp

section \<open>Order of the lists of a snapshot\<close>

text \<open>
  C4. A pass publishes when its scans do not throw and its write succeeds, and leaves the
  published snapshot as it was otherwise. The snapshot that it publishes has its
  \<open>taskLists\<close> in descending order of \<open>lastModified\<close>, and its \<open>selectedListId\<close> is the
  id of the first of them, or the empty string when there is none. In the scenario of the
  specification (\<open>proj-a\<close> last touched before \<open>proj-b\<close>) the order is \<open>proj-b, proj-a\<close>
  and \<open>proj-b\<close> is selected.
\<close>

theorem snapshot_sorted_by_recency:
  "if write_ok \<and> \<not> pass_throws js tdir
   then \<exists>d. data_file (writeFiles js T tdir write_ok st) = Some d
          \<and> sorted_wrt (\<lambda>a b. tl_lastModified a \<ge> tl_lastModified b) (md_taskLists d)
          \<and> md_selectedListId d = (case md_taskLists d of [] \<Rightarrow> [] | l # _ \<Rightarrow> tl_id l)
   else data_file (writeFiles js T tdir write_ok st) = data_file st"
proof (cases "write_ok \<and> \<not> pass_throws js tdir")
  case False
  then show ?thesis by (auto simp: writeFiles_data_file)
next
  case True
  then obtain tls where g: "fst (getTaskLists js tdir (taskDataCache st)) = Some tls"
    using getTaskLists_None_iff [of js tdir "taskDataCache st"] by fastforce
  from getTaskLists_sorted [OF g] True g show ?thesis
    by (simp add: writeFiles_data_file)
qed

theorem snapshot_sorted_by_recency_witness:
  "\<not> pass_throws fixed_engine two_lists
   \<and> map tl_id (md_taskLists (the (data_file (writeFiles fixed_engine TASKS two_lists True idle))))
     = [str ''proj-b'', str ''proj-a'']
   \<and> map tl_lastModified
        (md_taskLists (the (data_file (writeFiles fixed_engine TASKS two_lists True idle))))
     = [2000, 1000]
   \<and> md_selectedListId (the (data_file (writeFiles fixed_engine TASKS two_lists True idle)))
     = str ''proj-b''"
proof -
  let ?st = "writeFiles fixed_engine TASKS two_lists True idle"
  have ne: "\<not> pass_throws fixed_engine two_lists" by code_simp
  from snapshot_sorted_by_recency [of True fixed_engine two_lists TASKS idle] ne
  obtain d where d: "data_file ?st = Some d"
    and sel: "md_selectedListId d = (case md_taskLists d of [] \<Rightarrow> [] | l # _ \<Rightarrow> tl_id l)"
    by auto
  have ids: "map tl_id (md_taskLists (the (data_file ?st))) = [str ''proj-b'', str ''proj-a'']"
    by code_simp
  have lms: "map tl_lastModified (md_taskLists (the (data_file ?st))) = [2000, 1000]"
    by code_simp
  from ids d sel have "md_selectedListId d = str ''proj-b''"
    by (cases "md_taskLists d") auto
  with ne ids lms d show ?thesis by simp
qed

section \<open>Lists and summaries of a snapshot\<close>

text \<open>
  C10. Both scans of a pass read the same tree. In the snapshot that the pass publishes
  (it publishes when its scans do not throw and its write succeeds), \<open>taskLists\<close> and
  \<open>availableLists\<close> hold the same list ids in the same order, and the \<open>taskCount\<close> of
  each summary is the number of tasks of the list at the same position.
\<close>

theorem lists_match_summaries:
  "if write_ok \<and> \<not> pass_throws js tdir
   then \<exists>d. data_file (writeFiles js T tdir write_ok st) = Some d
          \<and> map tl_id (md_taskLists d) = map s_id (md_availableLists d)
          \<and> map (\<lambda>l. length (tl_tasks l)) (md_taskLists d) = map s_taskCount (md_availableLists d)
   else data_file (writeFiles js T tdir write_ok st) = data_file st"
proof (cases "write_ok \<and> \<not> pass_throws js tdir")
  case False
  then show ?thesis by (auto simp: writeFiles_data_file)
next
  case True
  then obtain tls where g: "fst (getTaskLists js tdir (taskDataCache st)) = Some tls"
    using getTaskLists_None_iff [of js tdir "taskDataCache st"] by fastforce
  from True obtain sms where s: "getAllTaskListSummaries T tdir = Some sms"
    using getAllTaskListSummaries_None_iff [of T tdir] pass_throws_Unreadable [of js tdir]
    by fastforce
  have "list_all2 same_list tls sms" by (rule lists_and_summaries [OF g s])
  then have "map tl_id tls = map s_id sms \<and> map (\<lambda>l. length (tl_tasks l)) tls = map s_taskCount sms"
    by (induction tls sms rule: list_all2_induct) (auto simp: same_list_def)
  with True g s show ?thesis by (simp add: writeFiles_data_file)
qed

theorem lists_match_summaries_witness:
  "\<not> pass_throws fixed_engine two_lists
   \<and> map s_id (md_availableLists (the (data_file (writeFiles fixed_engine TASKS two_lists True idle))))
     = [str ''proj-b'', str ''proj-a'']
   \<and> map s_taskCount
        (md_availableLists (the (data_file (writeFiles fixed_engine TASKS two_lists True idle))))
     = [1, 2]
   \<and> map tl_id (md_taskLists (the (data_file (writeFiles fixed_engine TASKS two_lists True idle))))
     = [str ''proj-b'', str ''proj-a'']
   \<and> map (\<lambda>l. length (tl_tasks l))
        (md_taskLists (the (data_file (writeFiles fixed_engine TASKS two_lists True idle))))
     = [1, 2]"
proof -
  let ?st = "writeFiles fixed_engine TASKS two_lists True idle"
  have ne: "\<not> pass_throws fixed_engine two_lists" by code_simp
  from lists_match_summaries [of True fixed_engine two_lists TASKS idle] ne
  obtain d where d: "data_file ?st = Some d"
    and ids: "map tl_id (md_taskLists d) = map s_id (md_availableLists d)"
    and cnt: "map (\<lambda>l. length (tl_tasks l)) (md_taskLists d) = map s_taskCount (md_availableLists d)"
    by auto
  have a: "map s_id (md_availableLists (the (data_file ?st))) = [str ''proj-b'', str ''proj-a'']"
    by code_simp
  have b: "map s_taskCount (md_availableLists (the (data_file ?st))) = [1, 2]"
    by code_simp
  from ne a b d ids cnt show ?thesis by simp
qed

section \<open>What counts as a task file\<close>



section \<open>Malformed files and empty lists\<close>

text \<open>
  C1 (as amended). Take a pass over a root whose entries have distinct names, and a
  directory of it (not \<^verbatim>\<open>.archive\<close>) that can be listed and in which \<^verbatim>\<open>statSync\<close>
  succeeds on every file that yields a task. Let it hold \<open>N\<close> task files of which \<open>K\<close>
  are malformed: unreadable, not JSON, or parsed to a falsy value. The pass publishes
  when its write succeeds and no sort throws; a sort throws when some directory yields two
  tasks or more and the id of one of them cannot be converted to a string. Any other pass
  leaves the published snapshot as it was, and no list of it is updated. In the snapshot
  that the pass publishes: if \<open>K < N\<close>, there is exactly one list of that name, and its
  tasks are the \<open>N - K\<close> tasks read from the other files; if \<open>K = N\<close>, there is no list
  and no summary of that name.
\<close>

theorem malformed_files_skipped:
  assumes "distinct (map dirent_name ds)"
    and "Dir name (Some files) \<in> set ds"
    and "name \<noteq> str ''.archive''"
    and "stat_ok files"
  shows "if write_ok \<and> \<not> pass_throws js (Listing ds)
    then \<exists>d. data_file (writeFiles js T (Listing ds) write_ok st) = Some d \<and>
     (if length (filter (\<lambda>f. is_task_file f \<and> malformed f) files)
           < length (filter is_task_file files)
      then \<exists>l. filter (\<lambda>l. tl_id l = name) (md_taskLists d) = [l]
             \<and> mset (tl_tasks l) = mset (scanned_tasks files)
             \<and> length (tl_tasks l)
                 = length (filter is_task_file files)
                   - length (filter (\<lambda>f. is_task_file f \<and> malformed f) files)
      else filter (\<lambda>l. tl_id l = name) (md_taskLists d) = []
             \<and> filter (\<lambda>s. s_id s = name) (md_availableLists d) = [])
    else data_file (writeFiles js T (Listing ds) write_ok st) = data_file st"
proof (cases "write_ok \<and> \<not> pass_throws js (Listing ds)")
  case False
  then show ?thesis by (auto simp: writeFiles_data_file)
next
  case True
  then obtain tls where g: "fst (getTaskLists js (Listing ds) (taskDataCache st)) = Some tls"
    using getTaskLists_None_iff [of js "Listing ds" "taskDataCache st"] by fastforce
  obtain sms where s: "getAllTaskListSummaries T (Listing ds) = Some sms"
    using getAllTaskListSummaries_None_iff [of T "Listing ds"] by fastforce
  let ?d = "\<lparr>md_taskLists = tls, md_availableLists = sms,
             md_selectedListId = (case tls of [] \<Rightarrow> [] | l # _ \<Rightarrow> tl_id l),
             md_templates = [], md_projectDir = projectDir (currentConfig st)\<rparr>"
  have d: "data_file (writeFiles js T (Listing ds) write_ok st) = Some ?d"
    using True g s by (simp add: writeFiles_data_file)
  have ids: "map tl_id tls = map s_id sms"
    by (rule same_list_ids [OF lists_and_summaries [OF g s]])
  note pf = published_filter [OF assms g]
  show ?thesis
  proof (cases "scanned_tasks files = []")
    case e: True
    with pf have f: "filter (\<lambda>l. tl_id l = name) tls = []" by simp
    then have "name \<notin> set (map tl_id tls)" by (auto simp: filter_empty_conv)
    with ids have "name \<notin> set (map s_id sms)" by simp
    then have "filter (\<lambda>s. s_id s = name) sms = []" by (auto simp: filter_empty_conv)
    with f d e True show ?thesis by (simp add: scanned_tasks_empty_iff)
  next
    case ne: False
    with pf obtain sorted lm where
      so: "js_sort (task_cmp js) (scanned_tasks files) = Some sorted"
      and f: "filter (\<lambda>l. tl_id l = name) tls =
         [\<lparr>tl_id = name, tl_tasks = sorted, tl_lastModified = lm\<rparr>]"
      by auto
    from mset_js_sort [OF so] length_js_sort [OF so] f d ne True show ?thesis
      by (simp add: scanned_tasks_empty_iff length_scanned_tasks)
  qed
qed

theorem malformed_files_skipped_witness:
  "\<not> pass_throws fixed_engine
       (Listing [Dir (str ''proj'') (Some mixed_files), Dir (str ''junk'') (Some unreadable_files)])
   \<and> map tl_id
     (md_taskLists (the (data_file (writeFiles fixed_engine TASKS
        (Listing [Dir (str ''proj'') (Some mixed_files), Dir (str ''junk'') (Some unreadable_files)])
        True idle))))
     = [str ''proj'']
   \<and> map tl_tasks
     (md_taskLists (the (data_file (writeFiles fixed_engine TASKS
        (Listing [Dir (str ''proj'') (Some mixed_files), Dir (str ''junk'') (Some unreadable_files)])
        True idle))))
     = [[mk_task ''1'' ''pending'', JStr (str ''hello''), JObj []]]
   \<and> length (filter is_task_file mixed_files) = 9
   \<and> length (filter (\<lambda>f. is_task_file f \<and> malformed f) mixed_files) = 6
   \<and> length (filter is_task_file unreadable_files) = 2
   \<and> length (filter (\<lambda>f. is_task_file f \<and> malformed f) unreadable_files) = 2
   \<and> map s_id
     (md_availableLists (the (data_file (writeFiles fixed_engine TASKS
        (Listing [Dir (str ''proj'') (Some mixed_files), Dir (str ''junk'') (Some unreadable_files)])
        True idle))))
     = [str ''proj'']
   \<and> pass_throws fixed_engine
       (Listing [Dir (str ''proj'') (Some mixed_files), Dir (str ''odd'') (Some odd_files)])
   \<and> data_file (writeFiles fixed_engine TASKS
        (Listing [Dir (str ''proj'') (Some mixed_files), Dir (str ''odd'') (Some odd_files)])
        True idle) = None"
proof -
  let ?ds = "[Dir (str ''proj'') (Some mixed_files), Dir (str ''junk'') (Some unreadable_files)]"
  let ?ds' = "[Dir (str ''proj'') (Some mixed_files), Dir (str ''odd'') (Some odd_files)]"
  let ?st = "writeFiles fixed_engine TASKS (Listing ?ds) True idle"
  have h1: "distinct (map dirent_name ?ds)" by simp
  have h1': "distinct (map dirent_name ?ds')" by simp
  have h2: "Dir (str ''proj'') (Some mixed_files) \<in> set ?ds" by simp
  have h2': "Dir (str ''proj'') (Some mixed_files) \<in> set ?ds'" by simp
  have h3: "str ''proj'' \<noteq> str ''.archive''" by simp
  have h4: "stat_ok mixed_files" by code_simp
  have nt: "\<not> pass_throws fixed_engine (Listing ?ds)" by code_simp
  have th: "pass_throws fixed_engine (Listing ?ds')" by code_simp
  have n: "length (filter is_task_file mixed_files) = 9" by code_simp
  have k: "length (filter (\<lambda>f. is_task_file f \<and> malformed f) mixed_files) = 6" by code_simp
  have n': "length (filter is_task_file unreadable_files) = 2" by code_simp
  have k': "length (filter (\<lambda>f. is_task_file f \<and> malformed f) unreadable_files) = 2"
    by code_simp
  from malformed_files_skipped [OF h1 h2 h3 h4, of True fixed_engine TASKS idle] nt n k
  obtain d l where d: "data_file ?st = Some d"
    and l: "filter (\<lambda>l. tl_id l = str ''proj'') (md_taskLists d) = [l]"
           "length (tl_tasks l) = 3"
    by auto
  from malformed_files_skipped [OF h1' h2' h3 h4, of True fixed_engine TASKS idle] th
  have un: "data_file (writeFiles fixed_engine TASKS (Listing ?ds') True idle) = data_file idle"
    by simp
  have a: "map tl_id (md_taskLists (the (data_file ?st))) = [str ''proj'']"
    by code_simp
  have a': "map tl_tasks (md_taskLists (the (data_file ?st)))
        = [[mk_task ''1'' ''pending'', JStr (str ''hello''), JObj []]]"
    by code_simp
  have b: "map s_id (md_availableLists (the (data_file ?st))) = [str ''proj'']"
    by code_simp
  from un have c: "data_file (writeFiles fixed_engine TASKS (Listing ?ds') True idle) = None"
    by (simp add: idle_def)
  from nt a a' b n k n' k' th c show ?thesis by simp
qed

text \<open>The claim as stated counts the files that fail to parse. A file holding \<^verbatim>\<open>0\<close>
  parses, and is dropped all the same by the test \<^verbatim>\<open>if (task)\<close>: of two files that
  both parse, one task is published.\<close>

theorem malformed_files_counterexample:
  "map f_content zero_files = [Parsed (mk_task ''1'' ''pending''), Parsed (JNum 0)]
   \<and> length (filter is_task_file zero_files) = 2
   \<and> map tl_id
       (md_taskLists (the (data_file (writeFiles fixed_engine TASKS
          (Listing [Dir (str ''proj'') (Some zero_files)]) True idle))))
     = [str ''proj'']
   \<and> map tl_tasks
       (md_taskLists (the (data_file (writeFiles fixed_engine TASKS
          (Listing [Dir (str ''proj'') (Some zero_files)]) True idle))))
     = [[mk_task ''1'' ''pending'']]"
  by code_simp

section \<open>Round trip of the configuration\<close>

text \<open>
  C7. A configuration that \<^verbatim>\<open>validateConfig\<close> accepts when it is submitted whole is read
  back unchanged by \<^verbatim>\<open>loadConfig\<close> after \<^verbatim>\<open>saveConfig\<close> has written it, and it is the live
  configuration of a process started on that file, whatever the working directory of that
  process. The same holds for the configurations
  the process does persist: the result of an accepted write (whole or partial) on a live
  configuration that is read back unchanged is read back unchanged, and so is whatever
  \<^verbatim>\<open>loadConfig\<close> returned at start.
\<close>

theorem config_round_trip:
  "(validateConfig js cur (config_json c) = Some (Valid c')
      \<longrightarrow> loadConfig cwd (config_file (saveConfig c st)) = c
        \<and> currentConfig (main js' T cwd tdir write_ok (config_file (saveConfig c st))) = c)
   \<and> (validateConfig js cur input = Some (Valid c)
        \<and> loadConfig cwd (config_file (saveConfig cur st)) = cur
      \<longrightarrow> loadConfig cwd (config_file (saveConfig c st)) = c)
   \<and> loadConfig cwd (config_file (saveConfig (loadConfig cwd cf) st)) = loadConfig cwd cf"
proof (intro conjI impI)
  assume a: "validateConfig js cur (config_json c) = Some (Valid c')"
  from validateConfig_Valid_cases [OF a]
  have "update_valid js (config_json c)" by (auto simp: config_json_def)
  from config_json_valid [OF this] show "loadConfig cwd (config_file (saveConfig c st)) = c"
    by (simp add: saveConfig_def loadConfig_saved)
  then show "currentConfig (main js' T cwd tdir write_ok (config_file (saveConfig c st))) = c"
    by (simp add: main_currentConfig)
next
  assume a: "validateConfig js cur input = Some (Valid c)
        \<and> loadConfig cwd (config_file (saveConfig cur st)) = cur"
  from validateConfig_Valid_cases [of js cur input c] a round_trip_update [of js input cwd cur st]
  show "loadConfig cwd (config_file (saveConfig c st)) = c" by auto
next
  show "loadConfig cwd (config_file (saveConfig (loadConfig cwd cf) st)) = loadConfig cwd cf"
    using loadConfig_fields [of cwd cf] by (simp only: round_trip_iff) simp
qed

theorem config_round_trip_witness:
  "validateConfig fixed_engine (DEFAULT_CONFIG (str ''/work'')) (config_json custom_config)
     = Some (Valid custom_config)
   \<and> loadConfig (str ''/home'') (config_file (saveConfig custom_config idle)) = custom_config
   \<and> currentConfig (main fixed_engine TASKS (str ''/home'') two_lists True
          (config_file (saveConfig custom_config idle))) = custom_config
   \<and> validateConfig fixed_engine (DEFAULT_CONFIG (str ''/work''))
        (JObj [(str ''agentNames'', JArr [JStr (0xA0 # str ''x''), JStr (str ''y '')])])
     = Some (Valid ((DEFAULT_CONFIG (str ''/work''))\<lparr>agentNames := [str ''x'', str ''y'']\<rparr>))
   \<and> loadConfig (str ''/work'') (config_file (saveConfig (DEFAULT_CONFIG (str ''/work'')) idle))
     = DEFAULT_CONFIG (str ''/work'')
   \<and> loadConfig (str ''/work'')
        (config_file (saveConfig ((DEFAULT_CONFIG (str ''/work''))\<lparr>agentNames := [str ''x'', str ''y'']\<rparr>) idle))
     = (DEFAULT_CONFIG (str ''/work''))\<lparr>agentNames := [str ''x'', str ''y'']\<rparr>"
proof -
  let ?d = "DEFAULT_CONFIG (str ''/work'')"
  let ?c2 = "?d\<lparr>agentNames := [str ''x'', str ''y'']\<rparr>"
  note rt = config_round_trip
  have h1: "validateConfig fixed_engine ?d (config_json custom_config) = Some (Valid custom_config)"
    by code_simp
  have r1: "loadConfig (str ''/home'') (config_file (saveConfig custom_config idle)) = custom_config"
    using rt [where js = fixed_engine and cur = ?d and c = custom_config and c' = custom_config
                and cwd = "str ''/home''" and st = idle] h1 by blast
  have r1': "currentConfig (main fixed_engine TASKS (str ''/home'') two_lists True
          (config_file (saveConfig custom_config idle))) = custom_config"
    using rt [where js = fixed_engine and cur = ?d and c = custom_config and c' = custom_config
                and cwd = "str ''/home''" and st = idle and js' = fixed_engine and T = TASKS
                and tdir = two_lists and write_ok = True] h1 by blast
  have h2: "validateConfig fixed_engine ?d (JObj [(str ''agentNames'', JArr [JStr (0xA0 # str ''x''), JStr (str ''y '')])])
      = Some (Valid ?c2)"
    by code_simp
  have h3: "loadConfig (str ''/work'') (config_file (saveConfig ?d idle)) = ?d"
    by code_simp
  have r2: "loadConfig (str ''/work'') (config_file (saveConfig ?c2 idle)) = ?c2"
    using rt [where js = fixed_engine and cur = ?d and c = ?c2 and cwd = "str ''/work''" and st = idle
                and input = "JObj [(str ''agentNames'', JArr [JStr (0xA0 # str ''x''), JStr (str ''y '')])]"]
      h2 h3 by blast
  from h1 r1 r1' h2 h3 r2 show ?thesis by blast
qed

section \<open>Range of the poll interval\<close>

text \<open>
  C8 (as amended). \<^verbatim>\<open>loadConfig\<close> keeps the \<^verbatim>\<open>pollInterval\<close> of the file when it is a
  JSON number between 500 and 60000 and takes the default 2000 otherwise, so what it
  returns, at start and when the file is reloaded, is in that range. A write through the
  API keeps the live value in the range. A write whose \<^verbatim>\<open>pollInterval\<close> is not
  converted by \<^verbatim>\<open>Number\<close> to a number in the range (the result is NaN, infinite or
  outside the range, or the conversion throws) is rejected, and the state is unchanged.
  The value need not be an integer.
\<close>

theorem pollInterval_in_range:
  "pollInterval (loadConfig cwd cf) =
     (case cf of
        ConfigFile (Parsed p) \<Rightarrow>
          (case get_prop p (str ''pollInterval'') of
             Some (JNum n) \<Rightarrow> if poll_ok n then n else 2000
           | _ \<Rightarrow> 2000)
      | _ \<Rightarrow> 2000)
   \<and> poll_ok (pollInterval (loadConfig cwd cf))
   \<and> poll_ok (pollInterval (currentConfig (main js' T cwd tdir write_ok cf)))
   \<and> poll_ok (pollInterval (currentConfig (on_config_change cwd now st)))
   \<and> (poll_ok (pollInterval (currentConfig st))
        \<longrightarrow> poll_ok (pollInterval (currentConfig (fst (post_config js write_ok now body st)))))
   \<and> (map_of kvs (str ''pollInterval'') = Some v \<and> \<not> valid_pollInterval js v
        \<longrightarrow> (\<exists>e. post_config js write_ok now (Some (JObj kvs)) st
                    = (st, Response 400 (error_body e))))"
proof (intro conjI impI)
  show "pollInterval (loadConfig cwd cf) =
     (case cf of
        ConfigFile (Parsed p) \<Rightarrow>
          (case get_prop p (str ''pollInterval'') of
             Some (JNum n) \<Rightarrow> if poll_ok n then n else 2000
           | _ \<Rightarrow> 2000)
      | _ \<Rightarrow> 2000)"
    by (rule loadConfig_pollInterval)
  show "poll_ok (pollInterval (loadConfig cwd cf))" by (rule loadConfig_fields(2))
  show "poll_ok (pollInterval (currentConfig (main js' T cwd tdir write_ok cf)))"
    by (simp add: main_currentConfig loadConfig_fields(2))
  show "poll_ok (pollInterval (currentConfig (on_config_change cwd now st)))"
    by (simp add: on_config_change_currentConfig loadConfig_fields(2))
next
  assume a: "poll_ok (pollInterval (currentConfig st))"
  from post_config_currentConfig [of js write_ok now body st] a validated_pollInterval
  show "poll_ok (pollInterval (currentConfig (fst (post_config js write_ok now body st))))"
    by auto
next
  assume a: "map_of kvs (str ''pollInterval'') = Some v \<and> \<not> valid_pollInterval js v"
  then have "\<not> update_valid js (JObj kvs)" by (simp add: update_valid_def field_ok_def)
  then show "\<exists>e. post_config js write_ok now (Some (JObj kvs)) st
                    = (st, Response 400 (error_body e))"
    by (auto simp: post_config_object)
qed

theorem pollInterval_in_range_witness:
  "poll_ok (pollInterval (currentConfig idle))
   \<and> pollInterval (currentConfig (fst (post_config fixed_engine True 0
         (Some (JObj [(str ''pollInterval'', JNum 750)])) idle))) = 750
   \<and> poll_ok 750
   \<and> \<not> valid_pollInterval fixed_engine (JNum 100)
   \<and> post_config fixed_engine True 0
         (Some (JObj [(str ''projectDir'', JStr (str ''/new'')), (str ''pollInterval'', JNum 100)])) idle
       = (idle, Response 400 (error_body (str ''pollInterval must be a number between 500 and 60000'')))
   \<and> pollInterval (loadConfig (str ''/work'')
         (ConfigFile (Parsed (JObj [(str ''pollInterval'', JNum 100)])))) = 2000
   \<and> pollInterval (loadConfig (str ''/work'')
         (ConfigFile (Parsed (JObj [(str ''pollInterval'', JStr (str ''1000''))])))) = 2000"
proof -
  let ?ok = "Some (JObj [(str ''pollInterval'', JNum 750)])"
  let ?kvs = "[(str ''projectDir'', JStr (str ''/new'')), (str ''pollInterval'', JNum 100)]"
  note th = pollInterval_in_range
  have h1: "poll_ok (pollInterval (currentConfig idle))" by code_simp
  from th [where st = idle and js = fixed_engine and write_ok = True and now = 0 and body = ?ok] h1
  have r1: "poll_ok (pollInterval (currentConfig (fst (post_config fixed_engine True 0 ?ok idle))))"
    by blast
  have e1: "pollInterval (currentConfig (fst (post_config fixed_engine True 0 ?ok idle))) = 750"
    by code_simp
  have h2: "map_of ?kvs (str ''pollInterval'') = Some (JNum 100)" by simp
  have h3: "\<not> valid_pollInterval fixed_engine (JNum 100)" by code_simp
  from th [where st = idle and js = fixed_engine and write_ok = True and now = 0
             and kvs = ?kvs and v = "JNum 100"] h2 h3
  obtain e where e: "post_config fixed_engine True 0 (Some (JObj ?kvs)) idle
      = (idle, Response 400 (error_body e))"
    by blast
  have "snd (post_config fixed_engine True 0 (Some (JObj ?kvs)) idle)
      = Response 400 (error_body (str ''pollInterval must be a number between 500 and 60000''))"
    by code_simp
  with e have r2: "post_config fixed_engine True 0 (Some (JObj ?kvs)) idle
      = (idle, Response 400 (error_body (str ''pollInterval must be a number between 500 and 60000'')))"
    by simp
  have l1: "pollInterval (loadConfig (str ''/work'')
         (ConfigFile (Parsed (JObj [(str ''pollInterval'', JNum 100)])))) = 2000"
    using th [where cwd = "str ''/work''" and cf = "ConfigFile (Parsed (JObj [(str ''pollInterval'', JNum 100)]))"]
    by (simp add: poll_ok_def)
  have l2: "pollInterval (loadConfig (str ''/work'')
         (ConfigFile (Parsed (JObj [(str ''pollInterval'', JStr (str ''1000''))])))) = 2000"
    using th [where cwd = "str ''/work''" and cf = "ConfigFile (Parsed (JObj [(str ''pollInterval'', JStr (str ''1000''))]))"]
    by simp
  from r1 e1 have "poll_ok 750" by simp
  with h1 e1 h3 r2 l1 l2 show ?thesis by blast
qed

text \<open>The claim as stated asks for an integer. Neither check looks at that: 500.5 is
  accepted by the API and kept by \<^verbatim>\<open>loadConfig\<close>.\<close>

theorem pollInterval_counterexample:
  "validateConfig fixed_engine (DEFAULT_CONFIG (str ''/work'')) (JObj [(str ''pollInterval'', JNum (1001 / 2))])
     = Some (Valid ((DEFAULT_CONFIG (str ''/work''))\<lparr>pollInterval := 1001 / 2\<rparr>))
   \<and> pollInterval (currentConfig (fst (post_config fixed_engine True 0
         (Some (JObj [(str ''pollInterval'', JNum (1001 / 2))])) idle))) = 1001 / 2
   \<and> pollInterval (loadConfig (str ''/work'')
         (ConfigFile (Parsed (JObj [(str ''pollInterval'', JNum (1001 / 2))])))) = 1001 / 2
   \<and> (1001 / 2 :: rat) \<notin> \<int>"
proof -
  have a: "validateConfig fixed_engine (DEFAULT_CONFIG (str ''/work'')) (JObj [(str ''pollInterval'', JNum (1001 / 2))])
     = Some (Valid ((DEFAULT_CONFIG (str ''/work''))\<lparr>pollInterval := 1001 / 2\<rparr>))"
    by code_simp
  have b: "pollInterval (currentConfig (fst (post_config fixed_engine True 0
         (Some (JObj [(str ''pollInterval'', JNum (1001 / 2))])) idle))) = 1001 / 2"
    by code_simp
  have c: "pollInterval (loadConfig (str ''/work'')
         (ConfigFile (Parsed (JObj [(str ''pollInterval'', JNum (1001 / 2))])))) = 1001 / 2"
    by code_simp
  from a b c half_not_int show ?thesis by blast
qed

section \<open>Writes through the configuration API\<close>




section \<open>Debounced regeneration\<close>

text \<open>
  C6. Take a burst of one or more events that each request a regeneration (a task file
  added, changed or removed, the configuration file edited, a write through the API that
  is accepted and persisted), each arriving no earlier than and less than 300 ms after the
  one before, on a process with no timer pending. The handlers are those of the source.
  No pass runs during the burst, none runs while less than 300 ms have passed since the
  last request, and when the event loop reaches a time 300 ms or more after the last
  request the timer fires once: \<^verbatim>\<open>writeFiles\<close> runs on the tree of that time, no timer
  is left, and nothing more runs later. A further request at such a time sees that pass
  done and schedules exactly one more.
\<close>

theorem burst_fires_once:
  assumes "es \<noteq> []" and "within_window (map fst es)"
    and "\<forall>e \<in> set es. requests_regeneration js (snd e)"
    and "writeDebounceTimer st = None"
  shows "passes (events js T cwd tree write_ok es st) = passes st
    \<and> (\<forall>now. now < fst (last es) + 300 \<longrightarrow>
          run_timers js T (tree now) write_ok now (events js T cwd tree write_ok es st)
            = events js T cwd tree write_ok es st)
    \<and> (\<forall>now. fst (last es) + 300 \<le> now \<longrightarrow>
          run_timers js T (tree now) write_ok now (events js T cwd tree write_ok es st)
            = writeFiles js T (tree now) write_ok
                ((events js T cwd tree write_ok es st)\<lparr>writeDebounceTimer := None\<rparr>)
          \<and> passes (run_timers js T (tree now) write_ok now
                (events js T cwd tree write_ok es st)) = passes st + 1
          \<and> writeDebounceTimer (run_timers js T (tree now) write_ok now
                (events js T cwd tree write_ok es st)) = None
          \<and> (\<forall>later. run_timers js T (tree later) write_ok later
                (run_timers js T (tree now) write_ok now (events js T cwd tree write_ok es st))
              = run_timers js T (tree now) write_ok now (events js T cwd tree write_ok es st)))
    \<and> (\<forall>t' ev' now. fst (last es) + 300 \<le> t' \<and> requests_regeneration js ev' \<and> t' + 300 \<le> now \<longrightarrow>
          passes (events js T cwd tree write_ok (es @ [(t', ev')]) st) = passes st + 1
          \<and> passes (run_timers js T (tree now) write_ok now
                (events js T cwd tree write_ok (es @ [(t', ev')]) st)) = passes st + 2)"
proof -
  let ?st = "events js T cwd tree write_ok es st"
  from events_burst [OF assms(1,2,3), of st T cwd tree write_ok] assms(4)
  have p: "passes ?st = passes st" and t: "writeDebounceTimer ?st = Some (fst (last es) + 300)"
    by simp_all
  have a: "run_timers js T (tree now) write_ok now ?st = ?st" if "now < fst (last es) + 300" for now
    using run_timers_not_due [OF t that] .
  have b: "run_timers js T (tree now) write_ok now ?st
            = writeFiles js T (tree now) write_ok (?st\<lparr>writeDebounceTimer := None\<rparr>)"
    if "fst (last es) + 300 \<le> now" for now
    using run_timers_due [OF t that] .
  have c: "passes (events js T cwd tree write_ok (es @ [(t', ev')]) st) = passes st + 1
          \<and> passes (run_timers js T (tree now) write_ok now
                (events js T cwd tree write_ok (es @ [(t', ev')]) st)) = passes st + 2"
    if "fst (last es) + 300 \<le> t'" "requests_regeneration js ev'" "t' + 300 \<le> now" for t' ev' now
  proof -
    let ?s2 = "events js T cwd tree write_ok (es @ [(t', ev')]) st"
    have s2: "?s2 = handle js cwd t' ev'
                (writeFiles js T (tree t') write_ok (?st\<lparr>writeDebounceTimer := None\<rparr>))"
      by (simp add: events_append b [OF that(1)])
    from handle_request(2) [OF that(2)] have p2: "passes ?s2 = passes st + 1"
      by (simp add: s2 p)
    from handle_request(1) [OF that(2)] have t2: "writeDebounceTimer ?s2 = Some (t' + 300)"
      by (simp add: s2)
    from run_timers_due [OF t2 that(3)] p2 show ?thesis by simp
  qed
  show ?thesis
  proof (intro conjI allI impI)
    show "passes ?st = passes st" by (rule p)
  next
    fix now assume "now < fst (last es) + 300"
    then show "run_timers js T (tree now) write_ok now ?st = ?st" by (rule a)
  next
    fix now assume n: "fst (last es) + 300 \<le> now"
    then show "run_timers js T (tree now) write_ok now ?st
            = writeFiles js T (tree now) write_ok (?st\<lparr>writeDebounceTimer := None\<rparr>)"
      by (rule b)
    from n show "passes (run_timers js T (tree now) write_ok now ?st) = passes st + 1"
      by (simp add: b p)
    from n show tn: "writeDebounceTimer (run_timers js T (tree now) write_ok now ?st) = None"
      by (simp add: b)
    fix later
    show "run_timers js T (tree later) write_ok later
            (run_timers js T (tree now) write_ok now ?st)
          = run_timers js T (tree now) write_ok now ?st"
      by (rule run_timers_idle [OF tn])
  next
    fix t' ev' now
    assume n: "fst (last es) + 300 \<le> t' \<and> requests_regeneration js ev' \<and> t' + 300 \<le> now"
    with c [of t' ev' now]
    show "passes (events js T cwd tree write_ok (es @ [(t', ev')]) st) = passes st + 1"
      by blast
    from n c [of t' ev' now]
    show "passes (run_timers js T (tree now) write_ok now
                (events js T cwd tree write_ok (es @ [(t', ev')]) st)) = passes st + 2"
      by blast
  qed
qed

theorem burst_fires_once_witness:
  "map fst mixed_burst = [0, 100, 200, 350, 500]
   \<and> within_window (map fst mixed_burst)
   \<and> list_all (requests_regeneration fixed_engine) (map snd mixed_burst)
   \<and> requests_regeneration fixed_engine late_request
   \<and> writeDebounceTimer idle = None
   \<and> passes (events fixed_engine TASKS (str ''/work'') (\<lambda>t. two_lists) True mixed_burst idle) = 0
   \<and> passes (run_timers fixed_engine TASKS two_lists True 799
        (events fixed_engine TASKS (str ''/work'') (\<lambda>t. two_lists) True mixed_burst idle)) = 0
   \<and> passes (run_timers fixed_engine TASKS two_lists True 800
        (events fixed_engine TASKS (str ''/work'') (\<lambda>t. two_lists) True mixed_burst idle)) = 1
   \<and> passes (run_timers fixed_engine TASKS two_lists True 300
        (events fixed_engine TASKS (str ''/work'') (\<lambda>t. two_lists) True
           [(0, FileAdded removed_path)] idle)) = 1
   \<and> passes (events fixed_engine TASKS (str ''/work'') (\<lambda>t. two_lists) True
        (mixed_burst @ [(900, late_request)]) idle) = 1
   \<and> passes (run_timers fixed_engine TASKS two_lists True 1200
        (events fixed_engine TASKS (str ''/work'') (\<lambda>t. two_lists) True
           (mixed_burst @ [(900, late_request)]) idle)) = 2"
proof -
  let ?ev = "events fixed_engine TASKS (str ''/work'') (\<lambda>t. two_lists) True"
  let ?st = "?ev mixed_burst idle"
  have ts: "map fst mixed_burst = [0, 100, 200, 350, 500]" by (simp add: mixed_burst_def)
  have l: "fst (last mixed_burst) = 500" by (simp add: mixed_burst_def)
  have h1: "mixed_burst \<noteq> []" by (simp add: mixed_burst_def)
  have h2: "within_window (map fst mixed_burst)" unfolding ts by simp
  have rq: "list_all (requests_regeneration fixed_engine) (map snd mixed_burst)" by code_simp
  then have h3: "\<forall>e \<in> set mixed_burst. requests_regeneration fixed_engine (snd e)"
    by (simp add: list_all_iff)
  have lr: "requests_regeneration fixed_engine late_request" by code_simp
  have h4: "writeDebounceTimer idle = None" by (simp add: idle_def)
  have p0: "passes idle = 0" by (simp add: idle_def)
  note th = burst_fires_once [OF h1 h2 h3 h4, of TASKS "str ''/work''" "\<lambda>t. two_lists" True]
  from th have a: "passes ?st = passes idle" by blast
  from th have "(799::int) < fst (last mixed_burst) + 300 \<longrightarrow>
      run_timers fixed_engine TASKS two_lists True 799 ?st = ?st" by blast
  then have b: "passes (run_timers fixed_engine TASKS two_lists True 799 ?st) = passes idle"
    using a l by simp
  from th have "fst (last mixed_burst) + 300 \<le> (800::int) \<longrightarrow>
      passes (run_timers fixed_engine TASKS two_lists True 800 ?st) = passes idle + 1" by blast
  then have c: "passes (run_timers fixed_engine TASKS two_lists True 800 ?st) = passes idle + 1"
    using l by simp
  from th have "fst (last mixed_burst) + 300 \<le> (900::int)
        \<and> requests_regeneration fixed_engine late_request \<and> (900::int) + 300 \<le> 1200 \<longrightarrow>
      passes (?ev (mixed_burst @ [(900, late_request)]) idle) = passes idle + 1
      \<and> passes (run_timers fixed_engine TASKS two_lists True 1200
          (?ev (mixed_burst @ [(900, late_request)]) idle)) = passes idle + 2" by blast
  then have d: "passes (?ev (mixed_burst @ [(900, late_request)]) idle) = passes idle + 1"
    and e: "passes (run_timers fixed_engine TASKS two_lists True 1200
          (?ev (mixed_burst @ [(900, late_request)]) idle)) = passes idle + 2"
    using l lr by simp_all
  have np: "\<not> ignored_path removed_path" by code_simp
  have "passes (run_timers fixed_engine TASKS two_lists True 300
        (?ev [(0, FileAdded removed_path)] idle)) = passes idle + 1"
    using burst_fires_once [of "[(0, FileAdded removed_path)]" fixed_engine idle TASKS
        "str ''/work''" "\<lambda>t. two_lists" True] np h4
    by simp
  then have f: "passes (run_timers fixed_engine TASKS two_lists True 300
        (?ev [(0, FileAdded removed_path)] idle)) = 1"
    using p0 by simp
  from ts h2 rq lr h4 a b c d e f p0 show ?thesis by simp
qed

section \<open>Archiving a removed list\<close>

text \<open>
  C2 (as amended). Let the watcher report the removal of a file whose path ends in
  \<^verbatim>\<open>.json\<close> and does not contain \<^verbatim>\<open>.archive\<close>, and let the cache hold a non-empty entry
  for the name of the file's directory. Then the entry is deleted and, unless the write of
  the archive fails, exactly one record is written to the archive directory, holding the
  list id, a timestamp and the cached tasks. A later removal in the same list, with no pass
  in between, archives nothing. Take the pass that the removal schedules, and let it
  publish (its scans do not throw; its write succeeds). When no task can be read any more
  from a directory of that name (the last task file was removed), its snapshot has no list
  and no summary of that id. When tasks can still be read there (one file among several
  was removed), its snapshot has exactly one list of that id, holding the tasks that are
  left.
\<close>

theorem removal_archives_once:
  assumes "\<not> ignored_path filePath"
    and "taskDataCache st (basename (dirname filePath)) = Some (tasks, lm)"
    and "tasks \<noteq> []"
  shows "archive_dir (on_unlink js archive_ok t1 t2 now filePath st) =
      (if archive_ok then (archive_dir st)
         (archive_name js t1 (basename (dirname filePath)) \<mapsto>
            \<lparr>a_id = basename (dirname filePath), a_archivedAt = toISOString js t2,
              a_tasks = tasks\<rparr>)
       else archive_dir st)
    \<and> taskDataCache (on_unlink js archive_ok t1 t2 now filePath st)
        = (taskDataCache st)(basename (dirname filePath) := None)
    \<and> (\<forall>filePath' ok' u1 u2 now'.
          basename (dirname filePath') = basename (dirname filePath) \<longrightarrow>
          archive_dir (on_unlink js ok' u1 u2 now' filePath'
              (on_unlink js archive_ok t1 t2 now filePath st))
            = archive_dir (on_unlink js archive_ok t1 t2 now filePath st))
    \<and> (\<forall>tdir now'.
          now + 300 \<le> now' \<and> \<not> pass_throws js tdir
          \<and> (\<forall>ds files. tdir = Listing ds \<and> Dir (basename (dirname filePath)) (Some files) \<in> set ds
                \<longrightarrow> scanned_tasks files = []) \<longrightarrow>
          (\<exists>d. data_file (run_timers js T tdir True now'
                    (on_unlink js archive_ok t1 t2 now filePath st)) = Some d
             \<and> basename (dirname filePath) \<notin> tl_id ` set (md_taskLists d)
             \<and> basename (dirname filePath) \<notin> s_id ` set (md_availableLists d)))
    \<and> (\<forall>ds files now'.
          now + 300 \<le> now' \<and> \<not> pass_throws js (Listing ds) \<and> distinct (map dirent_name ds)
          \<and> Dir (basename (dirname filePath)) (Some files) \<in> set ds
          \<and> stat_ok files \<and> scanned_tasks files \<noteq> [] \<longrightarrow>
          (\<exists>d l. data_file (run_timers js T (Listing ds) True now'
                    (on_unlink js archive_ok t1 t2 now filePath st)) = Some d
             \<and> filter (\<lambda>l. tl_id l = basename (dirname filePath)) (md_taskLists d) = [l]
             \<and> mset (tl_tasks l) = mset (scanned_tasks files)))"
proof -
  let ?id = "basename (dirname filePath)"
  let ?st = "on_unlink js archive_ok t1 t2 now filePath st"
  note eq = on_unlink_archives [OF assms, of js archive_ok t1 t2 now]
  have a: "archive_dir ?st = (if archive_ok then (archive_dir st)
         (archive_name js t1 ?id \<mapsto>
            \<lparr>a_id = ?id, a_archivedAt = toISOString js t2, a_tasks = tasks\<rparr>)
       else archive_dir st)"
    by (simp add: eq)
  have b: "taskDataCache ?st = (taskDataCache st)(?id := None)" by (simp add: eq)
  have t: "writeDebounceTimer ?st = Some (now + 300)" by (simp add: eq)
  have na: "?id \<noteq> str ''.archive''" by (rule list_id_not_archive [OF assms(1)])
  have c: "archive_dir (on_unlink js ok' u1 u2 now' filePath' ?st) = archive_dir ?st"
    if "basename (dirname filePath') = ?id" for filePath' ok' u1 u2 now'
  proof -
    from b that have "taskDataCache ?st (basename (dirname filePath')) = None" by simp
    then show ?thesis by (rule on_unlink_no_entry)
  qed
  have d: "\<exists>d. data_file (run_timers js T tdir True now' ?st) = Some d
             \<and> ?id \<notin> tl_id ` set (md_taskLists d) \<and> ?id \<notin> s_id ` set (md_availableLists d)"
    if "now + 300 \<le> now'" "\<not> pass_throws js tdir"
      "\<forall>ds files. tdir = Listing ds \<and> Dir ?id (Some files) \<in> set ds \<longrightarrow> scanned_tasks files = []"
    for tdir now'
    unfolding run_timers_due [OF t that(1)]
    by (rule no_list_without_tasks [OF that(2,3)])
  have e: "\<exists>d l. data_file (run_timers js T (Listing ds) True now' ?st) = Some d
             \<and> filter (\<lambda>l. tl_id l = ?id) (md_taskLists d) = [l]
             \<and> mset (tl_tasks l) = mset (scanned_tasks files)"
    if "now + 300 \<le> now'" "\<not> pass_throws js (Listing ds)" "distinct (map dirent_name ds)"
      "Dir ?id (Some files) \<in> set ds" "stat_ok files" "scanned_tasks files \<noteq> []"
    for ds files now'
    unfolding run_timers_due [OF t that(1)]
    by (rule list_with_tasks [OF that(2,3,4) na that(5,6)])
  show ?thesis
  proof (intro conjI allI impI)
    show "archive_dir ?st = (if archive_ok then (archive_dir st)
         (archive_name js t1 ?id \<mapsto>
            \<lparr>a_id = ?id, a_archivedAt = toISOString js t2, a_tasks = tasks\<rparr>)
       else archive_dir st)" by (rule a)
    show "taskDataCache ?st = (taskDataCache st)(?id := None)" by (rule b)
  next
    fix filePath' ok' u1 u2 now'
    assume "basename (dirname filePath') = ?id"
    then show "archive_dir (on_unlink js ok' u1 u2 now' filePath' ?st) = archive_dir ?st"
      by (rule c)
  next
    fix tdir now'
    assume "now + 300 \<le> now' \<and> \<not> pass_throws js tdir
          \<and> (\<forall>ds files. tdir = Listing ds \<and> Dir ?id (Some files) \<in> set ds
                \<longrightarrow> scanned_tasks files = [])"
    then show "\<exists>d. data_file (run_timers js T tdir True now' ?st) = Some d
             \<and> ?id \<notin> tl_id ` set (md_taskLists d) \<and> ?id \<notin> s_id ` set (md_availableLists d)"
      using d [of now' tdir] by blast
  next
    fix ds files now'
    assume "now + 300 \<le> now' \<and> \<not> pass_throws js (Listing ds) \<and> distinct (map dirent_name ds)
          \<and> Dir ?id (Some files) \<in> set ds \<and> stat_ok files \<and> scanned_tasks files \<noteq> []"
    then show "\<exists>d l. data_file (run_timers js T (Listing ds) True now' ?st) = Some d
             \<and> filter (\<lambda>l. tl_id l = ?id) (md_taskLists d) = [l]
             \<and> mset (tl_tasks l) = mset (scanned_tasks files)"
      using e [of now' ds files] by blast
  qed
qed

theorem removal_archives_once_witness:
  "\<not> ignored_path removed_path
   \<and> basename (dirname removed_path) = str ''proj-a''
   \<and> basename (dirname other_removed_path) = str ''proj-a''
   \<and> taskDataCache after_first_pass (str ''proj-a'')
       = Some ([mk_task ''1'' ''pending'', mk_task ''2'' ''completed''], 1000)
   \<and> archive_name fixed_engine 5000 (str ''proj-a'') = str ''proj-a_2026-01-01T00-00-00-000Z.json''
   \<and> archive_dir (on_unlink fixed_engine True 5000 5001 5000 removed_path after_first_pass)
        (str ''proj-a_2026-01-01T00-00-00-000Z.json'')
       = Some \<lparr>a_id = str ''proj-a'', a_archivedAt = str ''2026-01-01T00:00:00.000Z'',
               a_tasks = [mk_task ''1'' ''pending'', mk_task ''2'' ''completed'']\<rparr>
   \<and> taskDataCache (on_unlink fixed_engine True 5000 5001 5000 removed_path after_first_pass)
        (str ''proj-a'') = None
   \<and> archive_dir (on_unlink fixed_engine True 5010 5011 5010 other_removed_path
          (on_unlink fixed_engine True 5000 5001 5000 removed_path after_first_pass))
       = archive_dir (on_unlink fixed_engine True 5000 5001 5000 removed_path after_first_pass)
   \<and> map tl_id (md_taskLists (the (data_file
          (run_timers fixed_engine TASKS two_lists_less_a True 5300
             (on_unlink fixed_engine True 5000 5001 5000 removed_path after_first_pass)))))
       = [str ''proj-b'']
   \<and> map tl_id (md_taskLists (the (data_file
          (run_timers fixed_engine TASKS two_lists_less_one True 5300
             (on_unlink fixed_engine True 5000 5001 5000 removed_path after_first_pass)))))
       = [str ''proj-b'', str ''proj-a'']"
proof -
  let ?tasks = "[mk_task ''1'' ''pending'', mk_task ''2'' ''completed'']"
  let ?st2 = "on_unlink fixed_engine True 5000 5001 5000 removed_path after_first_pass"
  have h1: "\<not> ignored_path removed_path" by code_simp
  have id1: "basename (dirname removed_path) = str ''proj-a''" by code_simp
  have id2: "basename (dirname other_removed_path) = str ''proj-a''" by code_simp
  have c1: "taskDataCache after_first_pass (str ''proj-a'') = Some (?tasks, 1000)" by code_simp
  have h2: "taskDataCache after_first_pass (basename (dirname removed_path)) = Some (?tasks, 1000)"
    using c1 id1 by simp
  have h3: "?tasks \<noteq> []" by simp
  have n: "archive_name fixed_engine 5000 (str ''proj-a'')
      = str ''proj-a_2026-01-01T00-00-00-000Z.json''"
    by code_simp
  have clk: "toISOString fixed_engine 5001 = str ''2026-01-01T00:00:00.000Z''"
    by (simp add: fixed_engine_def)
  note th = removal_archives_once [OF h1 h2 h3, where js = fixed_engine and archive_ok = True
      and ?t1.0 = 5000 and ?t2.0 = 5001 and now = 5000 and T = TASKS]
  from th have a: "archive_dir ?st2 =
      (archive_dir after_first_pass)
         (archive_name fixed_engine 5000 (basename (dirname removed_path)) \<mapsto>
            \<lparr>a_id = basename (dirname removed_path), a_archivedAt = toISOString fixed_engine 5001,
              a_tasks = ?tasks\<rparr>)"
    by simp
  have a': "archive_dir ?st2 (str ''proj-a_2026-01-01T00-00-00-000Z.json'')
       = Some \<lparr>a_id = str ''proj-a'', a_archivedAt = str ''2026-01-01T00:00:00.000Z'',
               a_tasks = ?tasks\<rparr>"
    unfolding a id1 n clk by simp
  from th have "taskDataCache ?st2 = (taskDataCache after_first_pass)(basename (dirname removed_path) := None)"
    by blast
  then have b: "taskDataCache ?st2 (str ''proj-a'') = None" by (simp add: id1)
  from th id1 id2
  have c: "archive_dir (on_unlink fixed_engine True 5010 5011 5010 other_removed_path ?st2)
       = archive_dir ?st2"
    by simp
  let ?gone = "[Dir (str ''proj-a'') (Some []),
                Dir (str ''proj-b'')
                  (Some [mk_file ''1.json'' (Parsed (mk_task ''1'' ''in_progress'')) 2000])]"
  let ?left = "[mk_file ''1.json'' (Parsed (mk_task ''1'' ''pending'')) 900]"
  let ?less = "[Dir (str ''proj-a'') (Some ?left),
                Dir (str ''proj-b'')
                  (Some [mk_file ''1.json'' (Parsed (mk_task ''1'' ''in_progress'')) 2000])]"
  note gone = th [THEN conjunct2, THEN conjunct2, THEN conjunct2, THEN conjunct1, rule_format]
  note stays = th [THEN conjunct2, THEN conjunct2, THEN conjunct2, THEN conjunct2, rule_format]
  have k0: "(5000::int) + 300 \<le> 5300" by simp
  have g1: "\<not> pass_throws fixed_engine two_lists_less_a" by code_simp
  have g2: "\<forall>ds files. two_lists_less_a = Listing ds
              \<and> Dir (basename (dirname removed_path)) (Some files) \<in> set ds
            \<longrightarrow> scanned_tasks files = []"
    by (auto simp: two_lists_less_a_def id1 mk_file_def scanned_tasks_def)
  from gone [of 5300 two_lists_less_a] k0 g1 g2 obtain d0 where
    "data_file (run_timers fixed_engine TASKS two_lists_less_a True 5300 ?st2) = Some d0"
    "basename (dirname removed_path) \<notin> tl_id ` set (md_taskLists d0)"
    by blast
  then have d': "str ''proj-a'' \<notin> set (map tl_id (md_taskLists (the (data_file
          (run_timers fixed_engine TASKS two_lists_less_a True 5300 ?st2)))))"
    by (simp add: id1)
  have d: "map tl_id (md_taskLists (the (data_file
          (run_timers fixed_engine TASKS two_lists_less_a True 5300 ?st2))))
       = [str ''proj-b'']"
    by code_simp
  have k1: "\<not> pass_throws fixed_engine (Listing ?less)" by code_simp
  have k2: "distinct (map dirent_name ?less)" by simp
  have k3: "Dir (basename (dirname removed_path)) (Some ?left) \<in> set ?less" by (simp add: id1)
  have k4: "stat_ok ?left" by code_simp
  have k5: "scanned_tasks ?left \<noteq> []" by code_simp
  from stays [of 5300 ?less ?left] k0 k1 k2 k3 k4 k5 obtain d1 l1 where
    "data_file (run_timers fixed_engine TASKS (Listing ?less) True 5300 ?st2) = Some d1"
    "filter (\<lambda>l. tl_id l = basename (dirname removed_path)) (md_taskLists d1) = [l1]"
    by blast
  have e: "map tl_id (md_taskLists (the (data_file
          (run_timers fixed_engine TASKS two_lists_less_one True 5300 ?st2))))
       = [str ''proj-b'', str ''proj-a'']"
    by code_simp
  from h1 id1 id2 c1 n a' b c d e show ?thesis by blast
qed

text \<open>The claim as stated promises that the next snapshot no longer includes the list
  after the removal of any one task file. When \<^verbatim>\<open>proj-a/2.json\<close> is removed and
  \<^verbatim>\<open>proj-a/1.json\<close> stays, the list is archived and the next snapshot still holds
  \<open>proj-a\<close>, with the task that is left.\<close>

theorem removal_counterexample:
  "\<not> ignored_path removed_path
   \<and> basename (dirname removed_path) = str ''proj-a''
   \<and> taskDataCache after_first_pass (str ''proj-a'')
       = Some ([mk_task ''1'' ''pending'', mk_task ''2'' ''completed''], 1000)
   \<and> map tl_id (md_taskLists (the (data_file
          (run_timers fixed_engine TASKS two_lists_less_one True 5300
             (on_unlink fixed_engine True 5000 5001 5000 removed_path after_first_pass)))))
       = [str ''proj-b'', str ''proj-a'']
   \<and> map tl_tasks (md_taskLists (the (data_file
          (run_timers fixed_engine TASKS two_lists_less_one True 5300
             (on_unlink fixed_engine True 5000 5001 5000 removed_path after_first_pass)))))
       = [[mk_task ''1'' ''in_progress''], [mk_task ''1'' ''pending'']]"
  by code_simp

end
